theory Spec2Isabelle
  imports Main "HOL-Library.Char_ord" "HOL-Library.List_Lexorder" "HOL-Library.Product_Lexorder"
begin

section \<open>Errors\<close>

text \<open>
  The exceptions the module raises, as values. \<open>InvalidVersion\<close> and
  \<open>InvalidSpecifier\<close> are exceptions of the packaging library: the first is raised by
  its version parser inside a membership test, the second by the constructor of a
  specifier on a text it refuses.
\<close>

datatype error =
    ValueError
  | IndexError
  | InputError
  | InputParserError
  | UnableToResolve
  | InvalidVersion
  | InvalidSpecifier

section \<open>Strings\<close>

text \<open>
  Python's \<open>str.split(sep)\<close> for a one-character separator and \<open>sep.join(parts)\<close>.
  Splitting never returns the empty list: the empty string splits into one empty part.
\<close>

fun split :: "char \<Rightarrow> string \<Rightarrow> string list" where
  "split sep [] = [[]]"
| "split sep (c # cs) =
     (if c = sep then [] # split sep cs
      else (case split sep cs of
              [] \<Rightarrow> [[c]]
            | w # ws \<Rightarrow> (c # w) # ws))"

fun join :: "string \<Rightarrow> string list \<Rightarrow> string" where
  "join sep [] = []"
| "join sep [x] = x"
| "join sep (x # y # ys) = x @ sep @ join sep (y # ys)"

definition is_digit :: "char \<Rightarrow> bool" where
  "is_digit c \<longleftrightarrow> c \<in> set ''0123456789''"

definition is_ident_char :: "char \<Rightarrow> bool" where
  "is_ident_char c \<longleftrightarrow>
     is_digit c \<or> c \<in> set ''abcdefghijklmnopqrstuvwxyzABCDEFGHIJKLMNOPQRSTUVWXYZ-''"

definition digit_val :: "char \<Rightarrow> nat" where
  "digit_val c = of_char c - 48"

definition digit_char :: "nat \<Rightarrow> char" where
  "digit_char d = char_of (48 + d)"

text \<open>\<open>int(s)\<close> on a string of decimal digits, and \<open>str(n)\<close> of an integer.\<close>

definition nat_of_digits :: "string \<Rightarrow> nat" where
  "nat_of_digits ds = foldl (\<lambda>n c. 10 * n + digit_val c) 0 ds"

fun str_nat :: "nat \<Rightarrow> string" where
  "str_nat n = (if n < 10 then [digit_char n] else str_nat (n div 10) @ [digit_char (n mod 10)])"

declare str_nat.simps [simp del]

definition str_int :: "int \<Rightarrow> string" where
  "str_int i = (if i < 0 then CHR ''-'' # str_nat (nat (- i)) else str_nat (nat i))"

section \<open>SemanticVersion\<close>

text \<open>
  The class is a subclass of \<open>str\<close>: an instance is the string it was built from
  (\<open>raw\<close>, what \<open>split\<close> and the packaging library see) together with the parsed
  attributes. The attributes are Python integers; the constructor taking keyword
  parts instead of a version string is used by none of the functions below and is
  not modelled.
\<close>

record semver =
  raw :: string
  major :: int
  minor :: int
  patch :: int
  pre_release :: "string option"
  build :: "string option"

text \<open>
  The pattern \<open>_REGEX\<close>, read left to right. A number is \<open>0|[1-9]\d*\<close>; since the
  pattern goes on with a dot, a hyphen, a plus or the end, a number can only be the
  whole run of digits. The same holds for the pre-release and build parts, whose
  characters are letters, digits, hyphens and the separating dots. Characters are
  bytes here, so \<open>\d\<close> is read as the ASCII digits 0 to 9.
\<close>

definition numeric :: "string \<Rightarrow> bool" where
  "numeric ds \<longleftrightarrow> ds \<noteq> [] \<and> list_all is_digit ds \<and> (ds = ''0'' \<or> hd ds \<noteq> CHR ''0'')"

definition match_number :: "string \<Rightarrow> (string \<times> string) option" where
  "match_number s =
     (let ds = takeWhile is_digit s
      in if numeric ds then Some (ds, dropWhile is_digit s) else None)"

text \<open>\<open>(?:\.(0|[1-9]\d*))?\<close>: the group and the text left after it.\<close>

definition match_dot_number :: "string \<Rightarrow> string option \<times> string" where
  "match_dot_number s =
     (case s of
        [] \<Rightarrow> (None, s)
      | c # t \<Rightarrow>
          if c = CHR ''.'' then
            (case match_number t of
               None \<Rightarrow> (None, s)
             | Some (ds, r) \<Rightarrow> (Some ds, r))
          else (None, s))"

text \<open>
  A pre-release identifier is \<open>0|[1-9]\d*|\d*[a-zA-Z-][0-9a-zA-Z-]*\<close>, a build
  identifier \<open>[0-9a-zA-Z-]+\<close>.
\<close>

definition pre_release_identifier :: "string \<Rightarrow> bool" where
  "pre_release_identifier x \<longleftrightarrow>
     x \<noteq> [] \<and> list_all is_ident_char x \<and> (if list_all is_digit x then numeric x else True)"

definition build_identifier :: "string \<Rightarrow> bool" where
  "build_identifier x \<longleftrightarrow> x \<noteq> [] \<and> list_all is_ident_char x"

text \<open>\<open>(?:-(ident(?:\.ident)*))?\<close> and \<open>(?:\+(ident(?:\.ident)*))?\<close>.\<close>

definition match_suffix :: "char \<Rightarrow> (string \<Rightarrow> bool) \<Rightarrow> string \<Rightarrow> string option \<times> string" where
  "match_suffix lead ident s =
     (case s of
        [] \<Rightarrow> (None, s)
      | c # t \<Rightarrow>
          if c = lead then
            (let body = takeWhile (\<lambda>x. is_ident_char x \<or> x = CHR ''.'') t
             in if list_all ident (split CHR ''.'' body)
                then (Some body, dropWhile (\<lambda>x. is_ident_char x \<or> x = CHR ''.'') t)
                else (None, s))
          else (None, s))"

text \<open>
  \<open>SemanticVersion(version)\<close>: \<open>re.match\<close> of the pattern, whose final \<open>$\<close> also
  matches before a newline that ends the string, then the attributes: a missing or
  empty group is 0, respectively \<open>None\<close>.
\<close>

definition SemanticVersion :: "string \<Rightarrow> error + semver" where
  "SemanticVersion version =
     (case match_number version of
        None \<Rightarrow> Inl ValueError
      | Some (mj, r1) \<Rightarrow>
          (case match_dot_number r1 of (mn, r2) \<Rightarrow>
          (case match_dot_number r2 of (pt, r3) \<Rightarrow>
          (case match_suffix CHR ''-'' pre_release_identifier r3 of (pre, r4) \<Rightarrow>
          (case match_suffix CHR ''+'' build_identifier r4 of (bld, r5) \<Rightarrow>
             if r5 = [] \<or> r5 = [CHR 0x0A] then
               Inr \<lparr> raw = version,
                     major = int (nat_of_digits mj),
                     minor = (case mn of None \<Rightarrow> 0 | Some ds \<Rightarrow> int (nat_of_digits ds)),
                     patch = (case pt of None \<Rightarrow> 0 | Some ds \<Rightarrow> int (nat_of_digits ds)),
                     pre_release = pre,
                     build = bld \<rparr>
             else Inl ValueError)))))"

text \<open>\<open>__str__\<close>: the full version, always with major, minor and patch.\<close>

definition str_semver :: "semver \<Rightarrow> string" where
  "str_semver v =
     str_int (major v) @ ''.'' @ str_int (minor v) @ ''.'' @ str_int (patch v)
     @ (case pre_release v of None \<Rightarrow> [] | Some p \<Rightarrow> ''-'' @ p)
     @ (case build v of None \<Rightarrow> [] | Some b \<Rightarrow> ''+'' @ b)"

subsection \<open>Rich comparisons\<close>

text \<open>
  The comparisons between two instances. Strings compare as in Python: character by
  character, a proper prefix being smaller.
\<close>

definition semver_lt :: "semver \<Rightarrow> semver \<Rightarrow> bool" where
  "semver_lt self other =
     (if major self < major other then True
      else if major self = major other then
        (if minor self < minor other then True
         else if minor self = minor other then
           (if patch self < patch other then True
            else if patch self = patch other then
              (case pre_release self of
                 None \<Rightarrow> False
               | Some p \<Rightarrow>
                   (case pre_release other of
                      None \<Rightarrow> True
                    | Some q \<Rightarrow> p < q))
            else False)
         else False)
      else False)"

definition semver_eq :: "semver \<Rightarrow> semver \<Rightarrow> bool" where
  "semver_eq self other \<longleftrightarrow>
     major self = major other \<and> minor self = minor other \<and> patch self = patch other
     \<and> pre_release self = pre_release other"

definition semver_le :: "semver \<Rightarrow> semver \<Rightarrow> bool" where
  "semver_le self other \<longleftrightarrow> semver_lt self other \<or> semver_eq self other"

definition semver_ne :: "semver \<Rightarrow> semver \<Rightarrow> bool" where
  "semver_ne self other \<longleftrightarrow> \<not> semver_eq self other"

definition semver_ge :: "semver \<Rightarrow> semver \<Rightarrow> bool" where
  "semver_ge self other \<longleftrightarrow> \<not> semver_lt self other"

definition semver_gt :: "semver \<Rightarrow> semver \<Rightarrow> bool" where
  "semver_gt self other \<longleftrightarrow> \<not> semver_le self other"

subsection \<open>Neighbouring versions\<close>

definition next_version :: "semver \<Rightarrow> string \<Rightarrow> error + semver" where
  "next_version self version_part =
     (if version_part \<notin> set [''major'', ''minor'', ''patch''] then Inl ValueError
      else SemanticVersion
        (if version_part = ''major'' then str_int (major self + 1) @ ''.0.0''
         else if version_part = ''minor'' then
           str_int (major self) @ ''.'' @ str_int (minor self + 1) @ ''.0''
         else
           str_int (major self) @ ''.'' @ str_int (minor self) @ ''.''
           @ str_int (patch self + 1)))"

text \<open>
  \<open>max_filler\<close> is \<open>None\<close>, an integer or a string; a string goes through \<open>int(...)\<close>:
  white space around the number is dropped, then comes an optional sign and groups
  of decimal digits separated by single underscores (\<open>ValueError\<close> otherwise).
  The \<open>TypeError\<close> for any other type of \<open>max_filler\<close> has no input here.
\<close>

datatype filler = NoFiller | IntFiller int | StrFiller string

definition is_space :: "char \<Rightarrow> bool" where
  "is_space c \<longleftrightarrow>
     (of_char c :: nat) \<in> set [9, 10, 11, 12, 13, 28, 29, 30, 31, 32, 133, 160]"

definition strip :: "string \<Rightarrow> string" where
  "strip s = rev (dropWhile is_space (rev (dropWhile is_space s)))"

definition py_int :: "string \<Rightarrow> int option" where
  "py_int s =
     (let t = strip s;
          body = (case t of
                    [] \<Rightarrow> []
                  | c # r \<Rightarrow> if c = CHR ''-'' \<or> c = CHR ''+'' then r else t);
          groups = split CHR ''_'' body
      in if list_all (\<lambda>g. g \<noteq> [] \<and> list_all is_digit g) groups
         then Some (if t \<noteq> [] \<and> hd t = CHR ''-'' then - int (nat_of_digits (concat groups))
                    else int (nat_of_digits (concat groups)))
         else None)"

definition previous_version :: "semver \<Rightarrow> string \<Rightarrow> filler \<Rightarrow> error + semver" where
  "previous_version self version_part max_filler =
     (if version_part \<notin> set [''major'', ''minor'', ''patch''] then Inl ValueError
      else
        (case (case max_filler of
                 NoFiller \<Rightarrow> Some 99
               | StrFiller s \<Rightarrow> py_int s
               | IntFiller i \<Rightarrow> Some i) of
           None \<Rightarrow> Inl ValueError
         | Some m \<Rightarrow>
             SemanticVersion
               (if version_part = ''major'' then
                  str_int (major self - 1) @ ''.'' @ str_int m @ ''.'' @ str_int m
                else if version_part = ''minor'' then
                  (if minor self = 0 then
                     str_int (major self - 1) @ ''.'' @ str_int m @ ''.'' @ str_int m
                   else
                     str_int (major self) @ ''.'' @ str_int (minor self - 1) @ ''.''
                     @ str_int m)
                else
                  (if patch self = 0 then
                     (if minor self = 0 then
                        str_int (major self - 1) @ ''.'' @ str_int m @ ''.'' @ str_int m
                      else
                        str_int (major self) @ ''.'' @ str_int (minor self - 1) @ ''.''
                        @ str_int m)
                   else
                     str_int (major self) @ ''.'' @ str_int (minor self) @ ''.''
                     @ str_int (patch self - 1)))))"

definition shortened :: "semver \<Rightarrow> string" where
  "shortened self =
     (if patch self = 0 then
        (if minor self = 0 then str_int (major self)
         else str_int (major self) @ ''.'' @ str_int (minor self))
      else str_int (major self) @ ''.'' @ str_int (minor self) @ ''.'' @ str_int (patch self))"

section \<open>Specifiers and the packaging library\<close>

text \<open>
  A specifier of the packaging library is an operator and a version string; the
  module reads both, and builds new specifiers from text: an operator followed by a
  version. A specifier set is given as the list of its members in the order the set
  is iterated, which the module's loops depend on, and a new set is returned as a
  set of specifiers, each an operator with the text of its version.
\<close>

datatype operator = Compatible | Equal | NotEqual | LessEqual | GreaterEqual | Less | Greater

record specifier =
  operator :: operator
  version :: string

text \<open>
  The packaging library is a dependency of the module, so what \<open>update_specifier_set\<close>
  asks of it is a parameter: the membership test
  \<open>latest_version in current_specifier_set\<close>, which answers, or raises
  \<open>InvalidVersion\<close> (\<open>None\<close>) when its version parser refuses the latest version; and
  the constructor \<open>Specifier(text)\<close> on the text of an operator and a version, which
  returns the specifier it builds, or raises \<open>InvalidSpecifier\<close> (\<open>None\<close>).
\<close>

record packaging =
  contains :: "semver \<Rightarrow> specifier list \<Rightarrow> bool option"
  Specifier :: "specifier \<Rightarrow> specifier option"

text \<open>
  Modelled from the spec: the membership test and the specifier constructor of the
  packaging library, for specifiers whose version is a plain dotted number, with a
  final \<open>.*\<close> allowed after \<open>==\<close> and \<open>!=\<close>. The specification's membership test
  is "standard range semantics, \<open>~=\<close> expanded to its half-open range", and a \<open>~=\<close>
  specifier "requires at least two explicit segments (\<open>~=2\<close> is invalid)". So
  trailing zeros do not count, \<open>~=V\<close> is \<open>>=V\<close> together with agreement on all
  but the last part of \<open>V\<close>, and the constructor refuses \<open>~=\<close> with a version of
  one part. The latest version is read through its numbers; its build part plays
  no role, and a latest version with a pre-release part is in no set, since none
  of these specifiers asks for pre-releases. Other version texts in a specifier (a
  pre-release, an epoch) are not covered: the constructor refuses them here and
  nothing is a member of them.
\<close>

definition parse_release :: "string \<Rightarrow> nat list option" where
  "parse_release s =
     (let parts = split CHR ''.'' s
      in if list_all (\<lambda>p. p \<noteq> [] \<and> list_all is_digit p) parts
         then Some (map nat_of_digits parts) else None)"

definition strip_zeros :: "nat list \<Rightarrow> nat list" where
  "strip_zeros r = rev (dropWhile (\<lambda>n. n = 0) (rev r))"

definition release_lt :: "nat list \<Rightarrow> nat list \<Rightarrow> bool" where
  "release_lt a b \<longleftrightarrow> strip_zeros a < strip_zeros b"

definition release_eq :: "nat list \<Rightarrow> nat list \<Rightarrow> bool" where
  "release_eq a b \<longleftrightarrow> strip_zeros a = strip_zeros b"

definition prefix_match :: "nat list \<Rightarrow> nat list \<Rightarrow> bool" where
  "prefix_match item p \<longleftrightarrow> take (length p) (item @ replicate (length p) 0) = p"

definition wildcard :: "string \<Rightarrow> string option" where
  "wildcard v =
     (if 2 \<le> length v \<and> drop (length v - 2) v = ''.*'' then Some (take (length v - 2) v)
      else None)"

definition valid_specifier :: "specifier \<Rightarrow> bool" where
  "valid_specifier spec =
     (case (if operator spec = Equal \<or> operator spec = NotEqual then wildcard (version spec)
            else None) of
        Some p \<Rightarrow> parse_release p \<noteq> None
      | None \<Rightarrow>
          (case parse_release (version spec) of
             None \<Rightarrow> False
           | Some v \<Rightarrow> if operator spec = Compatible then 2 \<le> length v else True))"

definition specifier_contains :: "specifier \<Rightarrow> nat list \<Rightarrow> bool" where
  "specifier_contains spec item =
     (case (if operator spec = Equal \<or> operator spec = NotEqual then wildcard (version spec)
            else None) of
        Some p \<Rightarrow>
          (case parse_release p of
             None \<Rightarrow> False
           | Some r \<Rightarrow> prefix_match item r = (operator spec = Equal))
      | None \<Rightarrow>
          (case parse_release (version spec) of
             None \<Rightarrow> False
           | Some v \<Rightarrow>
               (case operator spec of
                  Compatible \<Rightarrow> \<not> release_lt item v \<and> prefix_match item (butlast v)
                | Equal \<Rightarrow> release_eq item v
                | NotEqual \<Rightarrow> \<not> release_eq item v
                | LessEqual \<Rightarrow> \<not> release_lt v item
                | GreaterEqual \<Rightarrow> \<not> release_lt item v
                | Less \<Rightarrow> release_lt item v
                | Greater \<Rightarrow> release_lt v item)))"

definition specifier_set_contains :: "semver \<Rightarrow> specifier list \<Rightarrow> bool" where
  "specifier_set_contains item specs =
     (case pre_release item of
        Some p \<Rightarrow> False
      | None \<Rightarrow>
          list_all
            (\<lambda>s. specifier_contains s [nat (major item), nat (minor item), nat (patch item)])
            specs)"

definition plain_packaging :: packaging where
  "plain_packaging =
     \<lparr>contains = (\<lambda>item specs. Some (specifier_set_contains item specs)),
      Specifier = (\<lambda>spec. if valid_specifier spec then Some spec else None)\<rparr>"

section \<open>Ignore rules\<close>

text \<open>
  \<open>_ignore_version_rules_specifier_set\<close>: the rules are dictionaries with an operator
  and a version, joined with commas into the text of a specifier set, which the
  library reads on plain versions as above. It drops the empty pieces of that text,
  so a rule with neither operator nor version adds nothing; text the library
  refuses (\<open>InvalidSpecifier\<close>) becomes \<open>InputError\<close>.
\<close>

definition operator_of :: "string \<Rightarrow> operator option" where
  "operator_of s =
     (if s = ''~='' then Some Compatible
      else if s = ''=='' then Some Equal
      else if s = ''!='' then Some NotEqual
      else if s = ''<='' then Some LessEqual
      else if s = ''>='' then Some GreaterEqual
      else if s = ''<'' then Some Less
      else if s = ''>'' then Some Greater
      else None)"

definition rule_specifier :: "string \<times> string \<Rightarrow> specifier option" where
  "rule_specifier rule =
     (case operator_of (fst rule) of
        None \<Rightarrow> None
      | Some opr \<Rightarrow>
          if valid_specifier \<lparr>operator = opr, version = snd rule\<rparr>
          then Some \<lparr>operator = opr, version = snd rule\<rparr>
          else None)"

definition ignore_version_rules_specifier_set ::
    "string list \<Rightarrow> (string \<times> string) list \<Rightarrow> error + bool" where
  "ignore_version_rules_specifier_set latest version_rules =
     (if version_rules = [] then Inr False
      else
        (let rules = filter (\<lambda>r. fst r @ snd r \<noteq> []) version_rules
         in if list_ex (\<lambda>r. rule_specifier r = None) rules then Inl InputError
            else
              (case SemanticVersion (join ''.'' latest) of
                 Inl e \<Rightarrow> Inl e
               | Inr v \<Rightarrow>
                   Inr (specifier_set_contains v
                          (map (\<lambda>r. the (rule_specifier r)) rules)))))"

text \<open>
  \<open>_ignore_semver_rules\<close>, on the list under the key \<open>version-update\<close>. The version
  parts are strings and are compared as strings; \<open>latest[0]\<close> and \<open>current[0]\<close> raise
  \<open>IndexError\<close> on an empty list.
\<close>

definition ignore_semver_rules ::
    "string list \<Rightarrow> string list \<Rightarrow> string list \<Rightarrow> error + bool" where
  "ignore_semver_rules current latest update_types =
     (if list_ex (\<lambda>x. x \<notin> set [''major'', ''minor'', ''patch'']) update_types
      then Inl InputParserError
      else if ''major'' \<in> set update_types then
        (if latest = [] \<or> current = [] then Inl IndexError
         else Inr (latest ! 0 \<noteq> current ! 0))
      else if ''minor'' \<in> set update_types then
        Inr (2 \<le> length latest \<and> 2 \<le> length current
             \<and> current ! 1 < latest ! 1 \<and> latest ! 0 = current ! 0)
      else if ''patch'' \<in> set update_types then
        Inr (3 \<le> length latest \<and> 3 \<le> length current
             \<and> current ! 2 < latest ! 2 \<and> latest ! 0 = current ! 0
             \<and> latest ! 1 = current ! 1)
      else Inr False)"

text \<open>
  \<open>ignore_version\<close>. The dictionary \<open>semver_rules\<close> has at most the key
  \<open>version-update\<close>: \<open>None\<close> is the empty dictionary.
\<close>

definition ignore_version ::
    "string list \<Rightarrow> string list \<Rightarrow> (string \<times> string) list \<Rightarrow> string list option
     \<Rightarrow> error + bool" where
  "ignore_version current latest version_rules semver_rules =
     (if version_rules = [] \<and> semver_rules = None then Inr True
      else
        (case ignore_version_rules_specifier_set latest version_rules of
           Inl e \<Rightarrow> Inl e
         | Inr True \<Rightarrow> Inr True
         | Inr False \<Rightarrow>
             (case semver_rules of
                None \<Rightarrow> Inr False
              | Some update_types \<Rightarrow> ignore_semver_rules current latest update_types)))"

section \<open>Updating a specifier set\<close>

text \<open>
  The two loops of \<open>update_specifier_set\<close>. Each returns the specifier it removes from
  the new set together with \<open>updated_specifiers\<close>, or \<open>None\<close> when it ends without a
  \<open>break\<close>. The first runs when the latest version is in the set, the second when it
  is not.
\<close>

fun repin_loop :: "string list \<Rightarrow> specifier list \<Rightarrow> (specifier \<times> specifier list) option" where
  "repin_loop split_latest_version [] = None"
| "repin_loop split_latest_version (s # rest) =
     (if operator s = Compatible \<or> operator s = Equal then
        Some (s, [\<lparr>operator = operator s,
                    version = join ''.''
                      (take (length (split CHR ''.'' (version s))) split_latest_version)\<rparr>])
      else repin_loop split_latest_version rest)"

fun bound_loop :: "semver \<Rightarrow> specifier list \<Rightarrow> error + (specifier \<times> specifier list) option" where
  "bound_loop latest_version [] = Inr None"
| "bound_loop latest_version (s # rest) =
     (if operator s = LessEqual then
        Inr (Some (s, [\<lparr>operator = LessEqual,
                         version = join ''.''
                           (take (length (split CHR ''.'' (version s)))
                              (split CHR ''.'' (raw latest_version)))\<rparr>]))
      else if operator s = Less then
        (if length (split CHR ''.'' (version s)) = 1 then
           (case next_version latest_version ''major'' of
              Inl e \<Rightarrow> Inl e
            | Inr nv \<Rightarrow> Inr (Some (s, [\<lparr>operator = Less, version = str_int (major nv)\<rparr>])))
         else if length (split CHR ''.'' (version s)) = 2 then
           (case next_version latest_version ''minor'' of
              Inl e \<Rightarrow> Inl e
            | Inr nv \<Rightarrow>
                Inr (Some (s, [\<lparr>operator = Less,
                                 version = join ''.'' (take 2 (split CHR ''.'' (raw nv)))\<rparr>])))
         else if length (split CHR ''.'' (version s)) = 3 then
           (case next_version latest_version ''patch'' of
              Inl e \<Rightarrow> Inl e
            | Inr nv \<Rightarrow> Inr (Some (s, [\<lparr>operator = Less, version = str_semver nv\<rparr>])))
         else Inl UnableToResolve)
      else if operator s = Compatible then
        (case SemanticVersion (version s) of
           Inl e \<Rightarrow> Inl e
         | Inr current_version \<Rightarrow>
             if major current_version < major latest_version then
               (case next_version latest_version ''major'' of
                  Inl e \<Rightarrow> Inl e
                | Inr nv \<Rightarrow>
                    Inr (Some (s, [\<lparr>operator = GreaterEqual,
                                     version = str_semver current_version\<rparr>,
                                   \<lparr>operator = Less, version = str_int (major nv)\<rparr>])))
             else
               Inr (Some (s, [\<lparr>operator = Compatible,
                                version = join ''.''
                                  (take (length (split CHR ''.'' (version s)))
                                     (split CHR ''.'' (raw latest_version)))\<rparr>])))
      else bound_loop latest_version rest)"

text \<open>
  \<open>update_specifier_set\<close>. After either loop the specifiers of \<open>updated_specifiers\<close>
  are built by the library's constructor and added to the new set; when the first
  loop ends without a \<open>break\<close> the set is returned as it is, and when the second
  does the function raises \<open>UnableToResolve\<close>.
\<close>

definition update_specifier_set ::
    "packaging \<Rightarrow> string \<Rightarrow> specifier list \<Rightarrow> error + specifier set" where
  "update_specifier_set lib latest_version current_specifier_set =
     (case SemanticVersion latest_version of
        Inl e \<Rightarrow> Inl e
      | Inr latest \<Rightarrow>
          (case contains lib latest current_specifier_set of
             None \<Rightarrow> Inl InvalidVersion
           | Some True \<Rightarrow>
               (case repin_loop (split CHR ''.'' (raw latest)) current_specifier_set of
                  None \<Rightarrow> Inr (set current_specifier_set)
                | Some (s, updated_specifiers) \<Rightarrow>
                    (case those (map (Specifier lib) updated_specifiers) of
                       None \<Rightarrow> Inl InvalidSpecifier
                     | Some built \<Rightarrow> Inr (set current_specifier_set - {s} \<union> set built)))
           | Some False \<Rightarrow>
               (case bound_loop latest current_specifier_set of
                  Inl e \<Rightarrow> Inl e
                | Inr None \<Rightarrow> Inl UnableToResolve
                | Inr (Some (s, updated_specifiers)) \<Rightarrow>
                    (case those (map (Specifier lib) updated_specifiers) of
                       None \<Rightarrow> Inl InvalidSpecifier
                     | Some built \<Rightarrow> Inr (set current_specifier_set - {s} \<union> set built)))))"

text \<open>
  The operators each loop looks for: the second loop stops at the first specifier
  with \<open><=\<close>, \<open><\<close> or \<open>~=\<close>, the first loop at the first with \<open>~=\<close> or \<open>==\<close>.
\<close>

definition bounding :: "specifier \<Rightarrow> bool" where
  "bounding s \<longleftrightarrow> operator s = LessEqual \<or> operator s = Less \<or> operator s = Compatible"

definition pinning :: "specifier \<Rightarrow> bool" where
  "pinning s \<longleftrightarrow> operator s = Compatible \<or> operator s = Equal"

text \<open>
  The operators that either loop may rewrite.
\<close>

definition rewritable :: "specifier \<Rightarrow> bool" where
  "rewritable s \<longleftrightarrow>
     operator s = Equal \<or> operator s = Compatible \<or> operator s = LessEqual \<or> operator s = Less"

section \<open>The minimum Python version of a marker\<close>

text \<open>
  \<open>marker.evaluate\<close> belongs to the packaging library and is a parameter: what the
  marker says of a candidate version. The \<open>while\<close> loop has no bound, so the search
  is a partial function: \<open>None\<close> is a search that does not return.
\<close>

definition semi_valid_python_version :: "semver \<Rightarrow> bool" where
  "semi_valid_python_version v \<longleftrightarrow>
     1 \<le> major v \<and> major v \<le> 3 \<and> 0 \<le> minor v \<and> minor v \<le> 12
     \<and> 0 \<le> patch v \<and> patch v \<le> 18"

definition py_next_version :: "string list \<Rightarrow> semver \<Rightarrow> error + semver" where
  "py_next_version split_py_version v =
     (if length split_py_version = 1 then next_version v ''major''
      else if length split_py_version = 2 then next_version v ''minor''
      else next_version v ''patch'')"

partial_function (option) search_loop ::
    "(semver \<Rightarrow> bool) \<Rightarrow> string list \<Rightarrow> semver \<Rightarrow> (error + semver) option" where
  "search_loop marker split_py_version min_py_version =
     (if \<not> semi_valid_python_version min_py_version \<or> \<not> marker min_py_version then
        (case py_next_version split_py_version min_py_version of
           Inl e \<Rightarrow> Some (Inl e)
         | Inr v \<Rightarrow> search_loop marker split_py_version v)
      else Some (Inr min_py_version))"

definition find_minimum_py_version ::
    "(semver \<Rightarrow> bool) \<Rightarrow> string \<Rightarrow> (error + string) option" where
  "find_minimum_py_version marker project_py_version =
     (case SemanticVersion project_py_version of
        Inl e \<Rightarrow> Some (Inl e)
      | Inr v \<Rightarrow>
          (case search_loop marker (split CHR ''.'' project_py_version) v of
             None \<Rightarrow> None
           | Some (Inl e) \<Rightarrow> Some (Inl e)
           | Some (Inr found) \<Rightarrow> Some (Inr (shortened found))))"

text \<open>
  The candidates of the search: the start, and after each one its successor at the
  granularity of the project's version. Two markers serve as examples: one that no
  version satisfies, and one that holds from Python 3.10 on.
\<close>

fun candidate :: "string list \<Rightarrow> semver \<Rightarrow> nat \<Rightarrow> error + semver" where
  "candidate split_py_version v 0 = Inr v"
| "candidate split_py_version v (Suc k) =
     (case py_next_version split_py_version v of
        Inl e \<Rightarrow> Inl e
      | Inr v' \<Rightarrow> candidate split_py_version v' k)"

definition unsatisfiable_marker :: "semver \<Rightarrow> bool" where
  "unsatisfiable_marker v = False"

definition from_3_10 :: "semver \<Rightarrow> bool" where
  "from_3_10 v \<longleftrightarrow> 3 \<le> major v \<and> 10 \<le> minor v"

section \<open>Properties of the comparisons\<close>

lemma semver_lt_lex:
  "semver_lt a b \<longleftrightarrow>
     (major a, minor a, patch a) < (major b, minor b, patch b)
     \<or> ((major a, minor a, patch a) = (major b, minor b, patch b)
         \<and> (case pre_release a of
               None \<Rightarrow> False
             | Some p \<Rightarrow> (case pre_release b of None \<Rightarrow> True | Some q \<Rightarrow> p < q)))"
  unfolding semver_lt_def less_prod_def by (simp split: option.splits)

lemma pre_trans:
  "(case x of None \<Rightarrow> False | Some p \<Rightarrow> (case y of None \<Rightarrow> True | Some q \<Rightarrow> p < q)) \<Longrightarrow>
   (case y of None \<Rightarrow> False | Some p \<Rightarrow> (case z of None \<Rightarrow> True | Some q \<Rightarrow> p < q)) \<Longrightarrow>
   (case x of None \<Rightarrow> False | Some p \<Rightarrow> (case z of None \<Rightarrow> True | Some q \<Rightarrow> (p::string) < q))"
  by (auto split: option.splits)

lemma pre_linear:
  "((case x of None \<Rightarrow> False | Some p \<Rightarrow> (case y of None \<Rightarrow> True | Some q \<Rightarrow> p < q))
    \<or> x = y) \<longleftrightarrow>
   \<not> (case y of None \<Rightarrow> False | Some p \<Rightarrow> (case x of None \<Rightarrow> True | Some q \<Rightarrow> (p::string) < q))"
  by (auto split: option.splits)

lemma lex_trans:
  fixes ta tb tc :: "'a :: order"
  assumes "ta < tb \<or> (ta = tb \<and> pab)" "tb < tc \<or> (tb = tc \<and> pbc)"
    and "pab \<Longrightarrow> pbc \<Longrightarrow> pac"
  shows "ta < tc \<or> (ta = tc \<and> pac)"
  using assms by (auto intro: less_trans)

lemma lex_linear:
  fixes ta tb :: "'a :: linorder"
  assumes "(pab \<or> ea = eb) \<longleftrightarrow> \<not> pba"
  shows "\<not> ((ta < tb \<or> (ta = tb \<and> pab)) \<or> (ta = tb \<and> ea = eb)) \<longleftrightarrow>
         (tb < ta \<or> (tb = ta \<and> pba))"
  using assms by (cases ta tb rule: linorder_cases) auto

lemma semver_lt_trans: "semver_lt a b \<Longrightarrow> semver_lt b c \<Longrightarrow> semver_lt a c"
  unfolding semver_lt_lex
  by (erule (1) lex_trans) (rule pre_trans)

lemma semver_lt_not_eq: "semver_lt a b \<Longrightarrow> \<not> semver_eq a b"
  by (auto simp: semver_lt_def semver_eq_def split: option.splits if_splits)

lemma semver_eq_lex:
  "semver_eq a b \<longleftrightarrow>
     (major a, minor a, patch a) = (major b, minor b, patch b)
     \<and> pre_release a = pre_release b"
  by (auto simp: semver_eq_def)

lemma semver_gt_iff: "semver_gt a b \<longleftrightarrow> semver_lt b a"
  unfolding semver_gt_def semver_le_def semver_lt_lex semver_eq_lex
  by (rule lex_linear) (rule pre_linear)

text \<open>
  C5. The comparison of versions is a strict total order: of \<open>a < b\<close>, \<open>a = b\<close> and
  \<open>a > b\<close> exactly one holds, \<open>a < b\<close> and \<open>b < c\<close> give \<open>a < c\<close>, the order is the
  lexicographic one on (major, minor, patch) followed by the pre-release rule (no
  pre-release above any pre-release, two pre-releases as strings), \<open>a > b\<close> is
  \<open>b < a\<close>, and neither the order nor equality looks at the build part.
\<close>

theorem version_total_order:
  "((semver_lt a b \<and> \<not> semver_eq a b \<and> \<not> semver_gt a b)
     \<or> (semver_eq a b \<and> \<not> semver_lt a b \<and> \<not> semver_gt a b)
     \<or> (semver_gt a b \<and> \<not> semver_lt a b \<and> \<not> semver_eq a b))
   \<and> (semver_lt a b \<and> semver_lt b c \<longrightarrow> semver_lt a c)
   \<and> (semver_lt a b \<longleftrightarrow>
        (major a, minor a, patch a) < (major b, minor b, patch b)
        \<or> ((major a, minor a, patch a) = (major b, minor b, patch b)
            \<and> (case pre_release a of
                  None \<Rightarrow> False
                | Some p \<Rightarrow> (case pre_release b of None \<Rightarrow> True | Some q \<Rightarrow> p < q))))
   \<and> (semver_gt a b \<longleftrightarrow> semver_lt b a)
   \<and> semver_lt (a\<lparr>build := x\<rparr>) (b\<lparr>build := y\<rparr>) = semver_lt a b
   \<and> semver_eq (a\<lparr>build := x\<rparr>) (b\<lparr>build := y\<rparr>) = semver_eq a b"
proof -
  have tri: "(semver_lt a b \<and> \<not> semver_eq a b \<and> \<not> semver_gt a b)
     \<or> (semver_eq a b \<and> \<not> semver_lt a b \<and> \<not> semver_gt a b)
     \<or> (semver_gt a b \<and> \<not> semver_lt a b \<and> \<not> semver_eq a b)"
    using semver_lt_not_eq [of a b] by (auto simp: semver_gt_def semver_le_def)
  have build_lt: "semver_lt (a\<lparr>build := x\<rparr>) (b\<lparr>build := y\<rparr>) = semver_lt a b"
    by (simp add: semver_lt_def split: option.splits)
  have build_eq: "semver_eq (a\<lparr>build := x\<rparr>) (b\<lparr>build := y\<rparr>) = semver_eq a b"
    by (simp add: semver_eq_def)
  show ?thesis
    using tri semver_lt_trans [of a b c] semver_lt_lex [of a b] semver_gt_iff [of a b]
      build_lt build_eq
    by blast
qed

theorem version_total_order_witness:
  "semver_lt \<lparr>raw = ''1.0.0-alpha'', major = 1, minor = 0, patch = 0,
                pre_release = Some ''alpha'', build = None\<rparr>
             \<lparr>raw = ''1.0.0'', major = 1, minor = 0, patch = 0,
                pre_release = None, build = None\<rparr>
   \<and> semver_lt \<lparr>raw = ''1.0.0'', major = 1, minor = 0, patch = 0,
                pre_release = None, build = None\<rparr>
               \<lparr>raw = ''1.2.0+b7'', major = 1, minor = 2, patch = 0,
                pre_release = None, build = Some ''b7''\<rparr>
   \<and> semver_lt \<lparr>raw = ''1.0.0-alpha'', major = 1, minor = 0, patch = 0,
                pre_release = Some ''alpha'', build = None\<rparr>
               \<lparr>raw = ''1.2.0+b7'', major = 1, minor = 2, patch = 0,
                pre_release = None, build = Some ''b7''\<rparr>"
  using version_total_order
    [of "\<lparr>raw = ''1.0.0-alpha'', major = 1, minor = 0, patch = 0,
                pre_release = Some ''alpha'', build = None\<rparr>"
        "\<lparr>raw = ''1.0.0'', major = 1, minor = 0, patch = 0,
                pre_release = None, build = None\<rparr>"
       "\<lparr>raw = ''1.2.0+b7'', major = 1, minor = 2, patch = 0,
                pre_release = None, build = Some ''b7''\<rparr>"]
  by (simp add: semver_lt_def)

subsection \<open>Pre-releases\<close>

lemma match_number_1: "match_number (CHR ''1'' # CHR ''.'' # s) = Some (''1'', CHR ''.'' # s)"
  by (simp add: match_number_def numeric_def is_digit_def)

lemma match_dot_number_0_dot:
  "match_dot_number (CHR ''.'' # CHR ''0'' # CHR ''.'' # s) = (Some ''0'', CHR ''.'' # s)"
  by (simp add: match_dot_number_def match_number_def numeric_def is_digit_def)

lemma match_dot_number_0_hyphen:
  "match_dot_number (CHR ''.'' # CHR ''0'' # CHR ''-'' # s) = (Some ''0'', CHR ''-'' # s)"
  by (simp add: match_dot_number_def match_number_def numeric_def is_digit_def)

lemma nat_of_digits_0_1: "nat_of_digits ''0'' = 0" "nat_of_digits ''1'' = 1"
  by (simp_all add: nat_of_digits_def digit_val_def)

lemma match_suffix_hyphen_cases:
  "match_suffix CHR ''-'' ident (CHR ''-'' # s) = (p, r) \<Longrightarrow>
     (p = None \<and> r = CHR ''-'' # s) \<or> (\<exists>body. p = Some body)"
  by (auto simp: match_suffix_def Let_def split: if_splits)

lemma match_suffix_plus_hyphen:
  "match_suffix CHR ''+'' ident (CHR ''-'' # s) = (None, CHR ''-'' # s)"
  by (simp add: match_suffix_def)

lemma SemanticVersion_1_0_0:
  "SemanticVersion ''1.0.0'' =
     Inr \<lparr>raw = ''1.0.0'', major = 1, minor = 0, patch = 0, pre_release = None, build = None\<rparr>"
  by code_simp

lemma SemanticVersion_1_0_0_pre:
  assumes "SemanticVersion (''1.0.0-'' @ suffix) = Inr v"
  shows "major v = 1 \<and> minor v = 0 \<and> patch v = 0 \<and> pre_release v \<noteq> None"
proof -
  obtain p r where pr:
    "match_suffix CHR ''-'' pre_release_identifier (CHR ''-'' # suffix) = (p, r)"
    by (cases "match_suffix CHR ''-'' pre_release_identifier (CHR ''-'' # suffix)")
  from match_suffix_hyphen_cases [OF pr] show ?thesis
  proof
    assume "p = None \<and> r = CHR ''-'' # suffix"
    with assms pr show ?thesis
      by (simp add: SemanticVersion_def match_number_1 match_dot_number_0_dot
          match_dot_number_0_hyphen match_suffix_plus_hyphen)
  next
    assume "\<exists>body. p = Some body"
    with assms pr show ?thesis
      by (auto simp: SemanticVersion_def match_number_1 match_dot_number_0_dot
          match_dot_number_0_hyphen nat_of_digits_0_1 split: prod.splits if_splits)
  qed
qed

lemma release_above_pre_release:
  assumes "major a = major b" "minor a = minor b" "patch a = patch b"
    and "pre_release a = None" "pre_release b \<noteq> None"
  shows "semver_gt a b \<and> semver_lt b a \<and> \<not> semver_eq a b"
  using assms
  by (auto simp: semver_gt_def semver_le_def semver_lt_def semver_eq_def split: option.splits)

lemma pre_releases_as_strings:
  assumes "major a = major b" "minor a = minor b" "patch a = patch b"
    and "pre_release a = Some p" "pre_release b = Some q"
  shows "semver_lt a b = (p < q)"
  using assms by (simp add: semver_lt_def)

text \<open>
  C9. Of two versions with the same major, minor and patch, the one without a
  pre-release is strictly greater than the one with a pre-release, and two
  pre-releases order as their strings do. In particular \<open>SemanticVersion("1.0.0")\<close>
  is greater than \<open>SemanticVersion("1.0.0-" + suffix)\<close> for every suffix the
  constructor accepts.
\<close>

theorem pre_release_precedence:
  "(major a = major b \<and> minor a = minor b \<and> patch a = patch b \<longrightarrow>
      (pre_release a = None \<and> pre_release b \<noteq> None \<longrightarrow>
         semver_gt a b \<and> semver_lt b a \<and> \<not> semver_eq a b)
      \<and> (\<forall>p q. pre_release a = Some p \<and> pre_release b = Some q \<longrightarrow>
            semver_lt a b = (p < q)))
   \<and> (\<forall>r v. SemanticVersion ''1.0.0'' = Inr r \<and> SemanticVersion (''1.0.0-'' @ suffix) = Inr v
         \<longrightarrow> semver_gt r v \<and> semver_lt v r)"
proof -
  have "semver_gt r v \<and> semver_lt v r"
    if "SemanticVersion ''1.0.0'' = Inr r" "SemanticVersion (''1.0.0-'' @ suffix) = Inr v"
    for r v
  proof -
    from that(1) have r: "major r = 1" "minor r = 0" "patch r = 0" "pre_release r = None"
      by (auto simp: SemanticVersion_1_0_0)
    from SemanticVersion_1_0_0_pre [OF that(2)] r show ?thesis
      using release_above_pre_release [of r v] by simp
  qed
  then show ?thesis
    using release_above_pre_release [of a b] pre_releases_as_strings [of a b]
    by blast
qed

theorem pre_release_precedence_witness:
  "SemanticVersion ''1.0.0'' =
     Inr \<lparr>raw = ''1.0.0'', major = 1, minor = 0, patch = 0, pre_release = None, build = None\<rparr>
   \<and> SemanticVersion (''1.0.0-'' @ ''alpha'') =
     Inr \<lparr>raw = ''1.0.0-alpha'', major = 1, minor = 0, patch = 0,
           pre_release = Some ''alpha'', build = None\<rparr>
   \<and> semver_gt
       \<lparr>raw = ''1.0.0'', major = 1, minor = 0, patch = 0, pre_release = None, build = None\<rparr>
       \<lparr>raw = ''1.0.0-alpha'', major = 1, minor = 0, patch = 0,
          pre_release = Some ''alpha'', build = None\<rparr>
   \<and> semver_lt
       \<lparr>raw = ''1.0.0-alpha'', major = 1, minor = 0, patch = 0,
          pre_release = Some ''alpha'', build = None\<rparr>
       \<lparr>raw = ''1.0.0-beta'', major = 1, minor = 0, patch = 0,
          pre_release = Some ''beta'', build = None\<rparr>"
proof -
  have p1: "SemanticVersion ''1.0.0'' =
     Inr \<lparr>raw = ''1.0.0'', major = 1, minor = 0, patch = 0, pre_release = None, build = None\<rparr>"
    by code_simp
  have p2: "SemanticVersion (''1.0.0-'' @ ''alpha'') =
     Inr \<lparr>raw = ''1.0.0-alpha'', major = 1, minor = 0, patch = 0,
           pre_release = Some ''alpha'', build = None\<rparr>"
    by code_simp
  have lt: "''alpha'' < ''beta''"
    by simp
  show ?thesis
    using p1 p2 lt
      pre_release_precedence
        [of "\<lparr>raw = ''1.0.0-alpha'', major = 1, minor = 0, patch = 0,
               pre_release = Some ''alpha'', build = None\<rparr>"
            "\<lparr>raw = ''1.0.0-beta'', major = 1, minor = 0, patch = 0,
               pre_release = Some ''beta'', build = None\<rparr>"
            "''alpha''"]
    by simp
qed

section \<open>Properties of previous_version\<close>

lemma SemanticVersion_hyphen: "SemanticVersion (CHR ''-'' # s) = Inl ValueError"
  by (simp add: SemanticVersion_def match_number_def numeric_def is_digit_def)

lemma str_int_minus_one: "str_int (- 1) @ s = CHR ''-'' # str_nat 1 @ s"
  by (simp add: str_int_def)

text \<open>
  C10. \<open>previous_version\<close> does not return a version when the decrement would go
  below major 0: for the part \<open>major\<close> on a version with major 0, for \<open>minor\<close> on a
  version with major 0 and minor 0, and for \<open>patch\<close> on 0.0.0, whatever
  \<open>max_filler\<close> is, the result is a \<open>ValueError\<close>: the text built starts with
  \<open>-1\<close>, which the constructor's pattern refuses.
\<close>

theorem previous_version_below_zero:
  "(major v = 0 \<longrightarrow> previous_version v ''major'' max_filler = Inl ValueError)
   \<and> (major v = 0 \<and> minor v = 0 \<longrightarrow> previous_version v ''minor'' max_filler = Inl ValueError)
   \<and> (major v = 0 \<and> minor v = 0 \<and> patch v = 0 \<longrightarrow>
        previous_version v ''patch'' max_filler = Inl ValueError)"
  by (simp add: previous_version_def str_int_minus_one SemanticVersion_hyphen
      split: option.splits)

theorem previous_version_below_zero_witness:
  "previous_version
     \<lparr>raw = ''0.5.3'', major = 0, minor = 5, patch = 3, pre_release = None, build = None\<rparr>
     ''major'' NoFiller = Inl ValueError
   \<and> previous_version
     \<lparr>raw = ''0.0.3'', major = 0, minor = 0, patch = 3, pre_release = None, build = None\<rparr>
     ''minor'' (IntFiller 9) = Inl ValueError
   \<and> previous_version
     \<lparr>raw = ''0.0.0'', major = 0, minor = 0, patch = 0, pre_release = None, build = None\<rparr>
     ''patch'' (StrFiller ''12'') = Inl ValueError"
  using previous_version_below_zero
      [of "\<lparr>raw = ''0.5.3'', major = 0, minor = 5, patch = 3, pre_release = None,
             build = None\<rparr>" NoFiller]
    previous_version_below_zero
      [of "\<lparr>raw = ''0.0.3'', major = 0, minor = 0, patch = 3, pre_release = None,
             build = None\<rparr>" "IntFiller 9"]
    previous_version_below_zero
      [of "\<lparr>raw = ''0.0.0'', major = 0, minor = 0, patch = 0, pre_release = None,
             build = None\<rparr>" "StrFiller ''12''"]
  by simp

section \<open>Properties of update_specifier_set\<close>

lemma split_not_Nil: "split sep s \<noteq> []"
  by (induction s) (auto split: list.splits)

lemma length_split_pos: "0 < length (split sep s)"
  using split_not_Nil [of sep s] by simp

lemma SemanticVersion_error: "SemanticVersion s = Inl e \<Longrightarrow> e = ValueError"
  by (auto simp: SemanticVersion_def split: option.splits prod.splits if_splits)

lemma SemanticVersion_raw: "SemanticVersion s = Inr v \<Longrightarrow> raw v = s"
  by (auto simp: SemanticVersion_def split: option.splits prod.splits if_splits)

lemma next_version_error: "next_version v part = Inl e \<Longrightarrow> e = ValueError"
  by (auto simp: next_version_def dest: SemanticVersion_error split: if_splits)

lemma bound_loop_find:
  "bound_loop latest current =
     (case find bounding current of None \<Rightarrow> Inr None | Some s \<Rightarrow> bound_loop latest [s])"
  by (induction current) (simp_all add: bounding_def)

lemma repin_loop_find:
  "repin_loop parts current =
     (case find pinning current of
        None \<Rightarrow> None
      | Some s \<Rightarrow>
          Some (s, [\<lparr>operator = operator s,
                      version = join ''.'' (take (length (split CHR ''.'' (version s))) parts)\<rparr>]))"
  by (induction current) (simp_all add: pinning_def)

lemma bound_loop_single_removed:
  "bound_loop latest [s] = Inr (Some (r, updated)) \<Longrightarrow> r = s"
  by (cases "operator s"; simp split: sum.splits if_splits)

lemma bound_loop_single_None:
  "bounding s \<Longrightarrow> bound_loop latest [s] \<noteq> Inr None"
  by (cases "operator s"; simp add: bounding_def split: sum.splits)

lemma bound_loop_LessEqual_unable:
  "operator s = LessEqual \<Longrightarrow> bound_loop latest [s] \<noteq> Inl UnableToResolve"
  by simp

lemma bound_loop_Compatible_unable:
  assumes "operator s = Compatible"
  shows "bound_loop latest [s] \<noteq> Inl UnableToResolve"
proof (cases "SemanticVersion (version s)")
  case (Inl e)
  with assms SemanticVersion_error [OF Inl] show ?thesis by simp
next
  case (Inr cv)
  show ?thesis
  proof (cases "next_version latest ''major''")
    case (Inl e)
    with assms Inr next_version_error [OF Inl] show ?thesis by simp
  next
    case (Inr nv)
    with assms \<open>SemanticVersion (version s) = Inr cv\<close> show ?thesis by simp
  qed
qed

lemma bound_loop_Less_unable:
  assumes "operator s = Less"
  shows "bound_loop latest [s] = Inl UnableToResolve \<longleftrightarrow>
           3 < length (split CHR ''.'' (version s))"
proof -
  have ne: "\<And>part. next_version latest part \<noteq> Inl UnableToResolve"
    using next_version_error by fastforce
  consider "length (split CHR ''.'' (version s)) = 1"
    | "length (split CHR ''.'' (version s)) = 2"
    | "length (split CHR ''.'' (version s)) = 3"
    | "3 < length (split CHR ''.'' (version s))"
    using length_split_pos [of "CHR ''.''" "version s"] by linarith
  then show ?thesis
  proof cases
    case 1
    with assms ne [of "''major''"] show ?thesis by (auto split: sum.splits)
  next
    case 2
    with assms ne [of "''minor''"] show ?thesis by (auto split: sum.splits)
  next
    case 3
    with assms ne [of "''patch''"] show ?thesis by (auto split: sum.splits)
  next
    case 4
    with assms show ?thesis by simp
  qed
qed

lemma bound_loop_single_unable:
  assumes "bounding s"
  shows "bound_loop latest [s] = Inl UnableToResolve \<longleftrightarrow>
     operator s = Less \<and> 3 < length (split CHR ''.'' (version s))"
proof (cases "operator s = Less")
  case True
  then show ?thesis using bound_loop_Less_unable [of s latest] by simp
next
  case False
  with assms have "operator s = LessEqual \<or> operator s = Compatible"
    by (simp add: bounding_def)
  with False show ?thesis
    using bound_loop_LessEqual_unable [of s latest] bound_loop_Compatible_unable [of s latest]
    by blast
qed

lemma update_member:
  assumes "SemanticVersion latest_version = Inr latest"
    and "contains lib latest current = Some True"
  shows "update_specifier_set lib latest_version current =
     (case find pinning current of
        None \<Rightarrow> Inr (set current)
      | Some s \<Rightarrow>
          (case Specifier lib
                  \<lparr>operator = operator s,
                    version = join ''.'' (take (length (split CHR ''.'' (version s)))
                                           (split CHR ''.'' latest_version))\<rparr> of
             None \<Rightarrow> Inl InvalidSpecifier
           | Some built \<Rightarrow> Inr (set current - {s} \<union> {built})))"
  using assms SemanticVersion_raw [OF assms(1)]
  by (simp add: update_specifier_set_def repin_loop_find split: option.splits)

lemma update_not_member:
  assumes "SemanticVersion latest_version = Inr latest"
    and "contains lib latest current = Some False"
  shows "update_specifier_set lib latest_version current =
     (case find bounding current of
        None \<Rightarrow> Inl UnableToResolve
      | Some s \<Rightarrow>
          (case bound_loop latest [s] of
             Inl e \<Rightarrow> Inl e
           | Inr None \<Rightarrow> Inl UnableToResolve
           | Inr (Some (r, updated)) \<Rightarrow>
               (case those (map (Specifier lib) updated) of
                  None \<Rightarrow> Inl InvalidSpecifier
                | Some built \<Rightarrow> Inr (set current - {s} \<union> set built))))"
proof (cases "find bounding current")
  case None
  with assms show ?thesis
    by (simp add: update_specifier_set_def bound_loop_find [of latest current])
next
  case (Some s)
  have "r = s" if "bound_loop latest [s] = Inr (Some (r, updated))" for r updated
    using that by (rule bound_loop_single_removed)
  with assms Some show ?thesis
    by (auto simp: update_specifier_set_def bound_loop_find [of latest current]
        split: sum.splits option.splits)
qed

lemma contains_plain:
  "contains plain_packaging v specs = Some (specifier_set_contains v specs)"
  by (simp add: plain_packaging_def)

lemma Specifier_plain:
  "Specifier plain_packaging t = (if valid_specifier t then Some t else None)"
  by (simp add: plain_packaging_def)

text \<open>
  C1 (as amended). When the latest version is not in the set, the one specifier the
  function works on is the first, in the order the set is iterated, whose operator
  is \<open><=\<close>, \<open><\<close> or \<open>~=\<close>: the outcome is what the loop makes of that specifier
  alone. Whenever a set is returned, it is the current set without that specifier
  together with the specifiers the library builds from the new texts, so every
  other specifier passes through unchanged. No operator has priority over another:
  a \<open><=\<close> specifier is the one rewritten only when it comes first.
\<close>

theorem update_rewrites_first_bound:
  "SemanticVersion latest_version = Inr latest
   \<and> contains lib latest current = Some False
   \<and> find bounding current = Some s
   \<longrightarrow> update_specifier_set lib latest_version current =
         (case bound_loop latest [s] of
            Inl e \<Rightarrow> Inl e
          | Inr None \<Rightarrow> Inl UnableToResolve
          | Inr (Some (r, updated)) \<Rightarrow>
              (case those (map (Specifier lib) updated) of
                 None \<Rightarrow> Inl InvalidSpecifier
               | Some built \<Rightarrow> Inr (set current - {s} \<union> set built)))
       \<and> (operator s = LessEqual \<longrightarrow>
            update_specifier_set lib latest_version current =
              (case Specifier lib
                      \<lparr>operator = LessEqual,
                        version = join ''.'' (take (length (split CHR ''.'' (version s)))
                                               (split CHR ''.'' latest_version))\<rparr> of
                 None \<Rightarrow> Inl InvalidSpecifier
               | Some built \<Rightarrow> Inr (set current - {s} \<union> {built})))"
proof (intro impI, elim conjE)
  assume a: "SemanticVersion latest_version = Inr latest"
    "contains lib latest current = Some False"
    "find bounding current = Some s"
  have 1: "update_specifier_set lib latest_version current =
         (case bound_loop latest [s] of
            Inl e \<Rightarrow> Inl e
          | Inr None \<Rightarrow> Inl UnableToResolve
          | Inr (Some (r, updated)) \<Rightarrow>
              (case those (map (Specifier lib) updated) of
                 None \<Rightarrow> Inl InvalidSpecifier
               | Some built \<Rightarrow> Inr (set current - {s} \<union> set built)))"
    using update_not_member [OF a(1,2)] a(3) by simp
  have 2: "update_specifier_set lib latest_version current =
              (case Specifier lib
                      \<lparr>operator = LessEqual,
                        version = join ''.'' (take (length (split CHR ''.'' (version s)))
                                               (split CHR ''.'' latest_version))\<rparr> of
                 None \<Rightarrow> Inl InvalidSpecifier
               | Some built \<Rightarrow> Inr (set current - {s} \<union> {built}))"
    if "operator s = LessEqual"
    using 1 that SemanticVersion_raw [OF a(1)] by (simp split: option.splits)
  from 1 2 show "update_specifier_set lib latest_version current =
         (case bound_loop latest [s] of
            Inl e \<Rightarrow> Inl e
          | Inr None \<Rightarrow> Inl UnableToResolve
          | Inr (Some (r, updated)) \<Rightarrow>
              (case those (map (Specifier lib) updated) of
                 None \<Rightarrow> Inl InvalidSpecifier
               | Some built \<Rightarrow> Inr (set current - {s} \<union> set built)))
       \<and> (operator s = LessEqual \<longrightarrow>
            update_specifier_set lib latest_version current =
              (case Specifier lib
                      \<lparr>operator = LessEqual,
                        version = join ''.'' (take (length (split CHR ''.'' (version s)))
                                               (split CHR ''.'' latest_version))\<rparr> of
                 None \<Rightarrow> Inl InvalidSpecifier
               | Some built \<Rightarrow> Inr (set current - {s} \<union> {built})))"
    by blast
qed

lemma update_4_0_0:
  "update_specifier_set plain_packaging ''4.0.0''
     [\<lparr>operator = Less, version = ''3''\<rparr>, \<lparr>operator = LessEqual, version = ''2.5''\<rparr>] =
   Inr {\<lparr>operator = LessEqual, version = ''2.5''\<rparr>, \<lparr>operator = Less, version = ''5''\<rparr>}"
  by code_simp

lemma parse_4_0_0: "SemanticVersion ''4.0.0'' =
   Inr \<lparr>raw = ''4.0.0'', major = 4, minor = 0, patch = 0, pre_release = None, build = None\<rparr>"
  by code_simp

text \<open>
  C1 (as stated) fails: with \<open><3\<close> iterated before \<open><=2.5\<close> and latest 4.0.0, the
  \<open><\<close> specifier is rewritten and the \<open><=\<close> specifier is left as it is.
\<close>

theorem update_first_bound_counterexample:
  "update_specifier_set plain_packaging ''4.0.0''
     [\<lparr>operator = Less, version = ''3''\<rparr>, \<lparr>operator = LessEqual, version = ''2.5''\<rparr>] =
   Inr {\<lparr>operator = LessEqual, version = ''2.5''\<rparr>, \<lparr>operator = Less, version = ''5''\<rparr>}
   \<and> update_specifier_set plain_packaging ''4.0.0''
     [\<lparr>operator = Less, version = ''3''\<rparr>, \<lparr>operator = LessEqual, version = ''2.5''\<rparr>] \<noteq>
   Inr {\<lparr>operator = Less, version = ''3''\<rparr>, \<lparr>operator = LessEqual, version = ''4.0''\<rparr>}"
  unfolding update_4_0_0 by (simp add: doubleton_eq_iff)

theorem update_rewrites_first_bound_witness:
  "SemanticVersion ''4.0.0'' =
     Inr \<lparr>raw = ''4.0.0'', major = 4, minor = 0, patch = 0, pre_release = None, build = None\<rparr>
   \<and> contains plain_packaging
       \<lparr>raw = ''4.0.0'', major = 4, minor = 0, patch = 0, pre_release = None, build = None\<rparr>
       [\<lparr>operator = GreaterEqual, version = ''1''\<rparr>, \<lparr>operator = LessEqual, version = ''2.5''\<rparr>,
        \<lparr>operator = Less, version = ''3''\<rparr>] = Some False
   \<and> find bounding
       [\<lparr>operator = GreaterEqual, version = ''1''\<rparr>, \<lparr>operator = LessEqual, version = ''2.5''\<rparr>,
        \<lparr>operator = Less, version = ''3''\<rparr>] = Some \<lparr>operator = LessEqual, version = ''2.5''\<rparr>
   \<and> update_specifier_set plain_packaging ''4.0.0''
       [\<lparr>operator = GreaterEqual, version = ''1''\<rparr>, \<lparr>operator = LessEqual, version = ''2.5''\<rparr>,
        \<lparr>operator = Less, version = ''3''\<rparr>] =
     Inr {\<lparr>operator = GreaterEqual, version = ''1''\<rparr>, \<lparr>operator = Less, version = ''3''\<rparr>,
          \<lparr>operator = LessEqual, version = ''4.0''\<rparr>}"
proof -
  have c: "contains plain_packaging
       \<lparr>raw = ''4.0.0'', major = 4, minor = 0, patch = 0, pre_release = None, build = None\<rparr>
       [\<lparr>operator = GreaterEqual, version = ''1''\<rparr>, \<lparr>operator = LessEqual, version = ''2.5''\<rparr>,
        \<lparr>operator = Less, version = ''3''\<rparr>] = Some False"
    by code_simp
  have f: "find bounding
       [\<lparr>operator = GreaterEqual, version = ''1''\<rparr>, \<lparr>operator = LessEqual, version = ''2.5''\<rparr>,
        \<lparr>operator = Less, version = ''3''\<rparr>] = Some \<lparr>operator = LessEqual, version = ''2.5''\<rparr>"
    by (simp add: bounding_def)
  have j: "join ''.'' (take (length (split CHR ''.'' ''2.5'')) (split CHR ''.'' ''4.0.0'')) = ''4.0''"
    by simp
  have b: "Specifier plain_packaging \<lparr>operator = LessEqual, version = ''4.0''\<rparr> =
      Some \<lparr>operator = LessEqual, version = ''4.0''\<rparr>"
    by code_simp
  show ?thesis
    using parse_4_0_0 c f j b
      update_rewrites_first_bound
        [of "''4.0.0''"
          "\<lparr>raw = ''4.0.0'', major = 4, minor = 0, patch = 0, pre_release = None, build = None\<rparr>"
          plain_packaging
          "[\<lparr>operator = GreaterEqual, version = ''1''\<rparr>, \<lparr>operator = LessEqual, version = ''2.5''\<rparr>,
            \<lparr>operator = Less, version = ''3''\<rparr>]"
          "\<lparr>operator = LessEqual, version = ''2.5''\<rparr>"]
    by auto
qed

subsection \<open>The compatible-release operator across a major version\<close>

lemma update_3_1_0:
  "update_specifier_set plain_packaging ''3.1.0'' [\<lparr>operator = Compatible, version = ''2.0''\<rparr>] =
     Inr {\<lparr>operator = GreaterEqual, version = ''2.0.0''\<rparr>, \<lparr>operator = Less, version = ''4''\<rparr>}"
  by code_simp

text \<open>
  C2 (as amended). For the set \<open>{~=2.0}\<close> and latest 3.1.0 the result is
  \<open>{>=2.0.0, <4}\<close>: the lower bound is the pinned version in full, the upper bound
  the next major version above the latest one.
\<close>

theorem update_compatible_major_bump:
  "update_specifier_set plain_packaging ''3.1.0'' [\<lparr>operator = Compatible, version = ''2.0''\<rparr>] =
     Inr {\<lparr>operator = GreaterEqual, version = ''2.0.0''\<rparr>, \<lparr>operator = Less, version = ''4''\<rparr>}"
  by (rule update_3_1_0)

text \<open>C2 (as stated) fails: the result is not \<open>{>=2.0.0, <3}\<close>, which would exclude 3.1.0.\<close>

theorem update_compatible_major_bump_counterexample:
  "update_specifier_set plain_packaging ''3.1.0'' [\<lparr>operator = Compatible, version = ''2.0''\<rparr>] \<noteq>
     Inr {\<lparr>operator = GreaterEqual, version = ''2.0.0''\<rparr>, \<lparr>operator = Less, version = ''3''\<rparr>}"
  unfolding update_3_1_0 by (simp add: doubleton_eq_iff)

subsection \<open>Re-pinning\<close>









section \<open>Properties of ignore_version\<close>

text \<open>
  C3. The update-type rules are tried in an \<open>if\<close>/\<open>elif\<close> chain, so \<open>minor\<close> is
  looked at only when \<open>major\<close> is absent: from 1.1.1 to 1.2.1 with the rules
  \<open>major\<close> and \<open>minor\<close> the version is not ignored, although the minor rule alone
  ignores it. The parts are compared as strings, so from 1.9.0 to 1.10.0 the minor
  rule does not apply either. The claim's two examples evaluate as it says.
\<close>

theorem ignore_version_minor_shadowed:
  "ignore_version [''1'', ''1'', ''1''] [''1'', ''2'', ''1''] [] (Some [''major'', ''minor''])
     = Inr False
   \<and> ignore_version [''1'', ''9'', ''0''] [''1'', ''10'', ''0''] [] (Some [''minor'']) = Inr False
   \<and> ignore_version [''1'', ''1'', ''1''] [''1'', ''2'', ''1''] [] (Some [''minor'']) = Inr True
   \<and> ignore_version [''1'', ''1'', ''1''] [''1'', ''2'', ''1''] [] (Some [''patch'']) = Inr False"
  by code_simp

section \<open>When update_specifier_set cannot resolve\<close>

lemma update_1_2_3_4:
  "update_specifier_set plain_packaging ''2.0.0'' [\<lparr>operator = Less, version = ''1.2.3.4''\<rparr>]
     = Inl UnableToResolve"
  by code_simp

text \<open>
  C7 (as stated) fails: a set with a \<open><\<close> specifier still ends in
  \<open>UnableToResolve\<close> when that specifier's version has four parts.
\<close>

theorem update_unable_counterexample:
  "update_specifier_set plain_packaging ''2.0.0'' [\<lparr>operator = Less, version = ''1.2.3.4''\<rparr>]
     = Inl UnableToResolve
   \<and> find bounding [\<lparr>operator = Less, version = ''1.2.3.4''\<rparr>]
     = Some \<lparr>operator = Less, version = ''1.2.3.4''\<rparr>"
  using update_1_2_3_4 by (simp add: bounding_def)

text \<open>
  C7 (as amended). Whatever the library answers, \<open>update_specifier_set\<close> raises
  \<open>UnableToResolve\<close> exactly when the latest version parses, the membership test
  says it is not in the set, and either no specifier has \<open><=\<close>, \<open><\<close> or \<open>~=\<close>, or
  the first specifier that has one of them is a \<open><\<close> specifier whose version has
  more than three dot-separated parts.
\<close>

theorem update_unable_to_resolve_iff:
  "update_specifier_set lib latest_version current = Inl UnableToResolve \<longleftrightarrow>
     (\<exists>latest. SemanticVersion latest_version = Inr latest
        \<and> contains lib latest current = Some False
        \<and> (case find bounding current of
              None \<Rightarrow> True
            | Some s \<Rightarrow> operator s = Less \<and> 3 < length (split CHR ''.'' (version s))))"
proof (cases "SemanticVersion latest_version")
  case (Inl e)
  with SemanticVersion_error [OF Inl] show ?thesis
    by (simp add: update_specifier_set_def)
next
  case (Inr latest)
  show ?thesis
  proof (cases "contains lib latest current")
    case None
    with Inr show ?thesis
      by (simp add: update_specifier_set_def)
  next
    case c: (Some member)
    show ?thesis
    proof (cases member)
      case True
      with Inr c update_member [of latest_version latest lib current] show ?thesis
        by (simp split: option.splits)
    next
      case False
      from c False have c': "contains lib latest current = Some False" by simp
      note nm = update_not_member [OF Inr c']
      show ?thesis
      proof (cases "find bounding current")
        case None
        with nm Inr c False show ?thesis by simp
      next
        case (Some s)
        then have b: "bounding s" by (auto simp: find_Some_iff)
        have "update_specifier_set lib latest_version current = Inl UnableToResolve \<longleftrightarrow>
              bound_loop latest [s] = Inl UnableToResolve"
        proof (cases "bound_loop latest [s]")
          case (Inl e)
          with nm Some show ?thesis by (simp del: bound_loop.simps)
        next
          case r: (Inr r)
          with bound_loop_single_None [OF b, of latest] obtain x u where "r = Some (x, u)"
            by (cases r) auto
          with nm Some r show ?thesis by (simp del: bound_loop.simps split: option.splits)
        qed
        with bound_loop_single_unable [OF b, of latest] Inr c False Some show ?thesis
          by (simp del: bound_loop.simps)
      qed
    qed
  qed
qed

section \<open>Printing and parsing numbers\<close>

lemma digit_char_values:
  "digit_char 0 = CHR ''0''" "digit_char (Suc 0) = CHR ''1''" "digit_char 2 = CHR ''2''"
  "digit_char 3 = CHR ''3''" "digit_char 4 = CHR ''4''" "digit_char 5 = CHR ''5''"
  "digit_char 6 = CHR ''6''" "digit_char 7 = CHR ''7''" "digit_char 8 = CHR ''8''"
  "digit_char 9 = CHR ''9''"
  by code_simp+

lemma digit_cases: "d < (10::nat) \<Longrightarrow> d \<in> {0, Suc 0, 2, 3, 4, 5, 6, 7, 8, 9}"
  by auto

lemma digit_char_is_digit: "d < 10 \<Longrightarrow> is_digit (digit_char d)"
  by (drule digit_cases) (auto simp: digit_char_values is_digit_def)

lemma digit_val_digit_char: "d < 10 \<Longrightarrow> digit_val (digit_char d) = d"
  by (drule digit_cases) (auto simp: digit_char_values digit_val_def)

lemma digit_char_zero_iff: "d < 10 \<Longrightarrow> digit_char d = CHR ''0'' \<longleftrightarrow> d = 0"
  by (drule digit_cases) (auto simp: digit_char_values)

lemma str_nat_0: "str_nat 0 = ''0''"
  by (simp add: str_nat.simps digit_char_values)

lemma str_nat_not_Nil: "str_nat n \<noteq> []"
  by (subst str_nat.simps) simp

lemma str_nat_digits: "list_all is_digit (str_nat n)"
proof (induction n rule: str_nat.induct)
  case (1 n)
  show ?case
  proof (cases "n < 10")
    case True
    then show ?thesis by (subst str_nat.simps) (simp add: digit_char_is_digit)
  next
    case False
    with 1 show ?thesis by (subst str_nat.simps) (simp add: digit_char_is_digit)
  qed
qed

lemma hd_str_nat: "0 < n \<Longrightarrow> hd (str_nat n) \<noteq> CHR ''0''"
proof (induction n rule: str_nat.induct)
  case (1 n)
  show ?case
  proof (cases "n < 10")
    case True
    with 1(2) show ?thesis by (subst str_nat.simps) (simp add: digit_char_zero_iff)
  next
    case False
    then have "0 < n div 10" by simp
    with 1(1) False have "hd (str_nat (n div 10)) \<noteq> CHR ''0''" by simp
    with False show ?thesis
      by (subst str_nat.simps) (simp add: str_nat_not_Nil)
  qed
qed

lemma numeric_str_nat: "numeric (str_nat n)"
proof (cases "n = 0")
  case True
  then show ?thesis by (simp add: numeric_def str_nat_0 is_digit_def)
next
  case False
  then show ?thesis
    using hd_str_nat [of n] by (simp add: numeric_def str_nat_not_Nil str_nat_digits)
qed

lemma nat_of_digits_snoc: "nat_of_digits (ds @ [c]) = 10 * nat_of_digits ds + digit_val c"
  by (simp add: nat_of_digits_def)

lemma nat_of_digits_str_nat: "nat_of_digits (str_nat n) = n"
proof (induction n rule: str_nat.induct)
  case (1 n)
  show ?case
  proof (cases "n < 10")
    case True
    then show ?thesis
      by (subst str_nat.simps) (simp add: nat_of_digits_def digit_val_digit_char)
  next
    case False
    with 1 show ?thesis
      by (subst str_nat.simps) (simp add: nat_of_digits_snoc digit_val_digit_char)
  qed
qed

lemma takeWhile_digits_str_nat:
  assumes "rest = [] \<or> \<not> is_digit (hd rest)"
  shows "takeWhile is_digit (str_nat n @ rest) = str_nat n"
    and "dropWhile is_digit (str_nat n @ rest) = rest"
proof -
  have all: "\<forall>x \<in> set (str_nat n). is_digit x"
    using str_nat_digits [of n] by (simp add: list_all_iff)
  from assms have t: "takeWhile is_digit rest = []" and d: "dropWhile is_digit rest = rest"
    by (cases rest; simp)+
  from all t show "takeWhile is_digit (str_nat n @ rest) = str_nat n"
    by (simp add: takeWhile_append2)
  from all d show "dropWhile is_digit (str_nat n @ rest) = rest"
    by (simp add: dropWhile_append2)
qed

lemma match_number_str_nat:
  assumes "rest = [] \<or> \<not> is_digit (hd rest)"
  shows "match_number (str_nat n @ rest) = Some (str_nat n, rest)"
  using takeWhile_digits_str_nat [OF assms, of n]
  by (simp add: match_number_def numeric_str_nat)

lemma match_dot_number_str_nat:
  assumes "rest = [] \<or> \<not> is_digit (hd rest)"
  shows "match_dot_number (CHR ''.'' # str_nat n @ rest) = (Some (str_nat n), rest)"
  using match_number_str_nat [OF assms, of n]
  by (simp add: match_dot_number_def)

lemma SemanticVersion_triple:
  "SemanticVersion (str_nat a @ CHR ''.'' # str_nat b @ CHR ''.'' # str_nat c) =
     Inr \<lparr>raw = str_nat a @ CHR ''.'' # str_nat b @ CHR ''.'' # str_nat c,
           major = int a, minor = int b, patch = int c,
           pre_release = None, build = None\<rparr>"
proof -
  have dot: "\<not> is_digit CHR ''.''" by (simp add: is_digit_def)
  have 1: "match_number (str_nat a @ CHR ''.'' # str_nat b @ CHR ''.'' # str_nat c) =
      Some (str_nat a, CHR ''.'' # str_nat b @ CHR ''.'' # str_nat c)"
    by (rule match_number_str_nat) (simp add: dot)
  have 2: "match_dot_number (CHR ''.'' # str_nat b @ CHR ''.'' # str_nat c) =
      (Some (str_nat b), CHR ''.'' # str_nat c)"
    by (rule match_dot_number_str_nat) (simp add: dot)
  have 3: "match_dot_number (CHR ''.'' # str_nat c) = (Some (str_nat c), [])"
    using match_dot_number_str_nat [of "[]" c] by simp
  show ?thesis
    by (simp add: SemanticVersion_def 1 2 3 match_suffix_def nat_of_digits_str_nat)
qed

section \<open>Properties of find_minimum_py_version\<close>

lemma SemanticVersion_nonneg:
  "SemanticVersion s = Inr v \<Longrightarrow> 0 \<le> major v \<and> 0 \<le> minor v \<and> 0 \<le> patch v"
  by (auto simp: SemanticVersion_def split: option.splits prod.splits if_splits)

lemma str_int_nonneg: "0 \<le> i \<Longrightarrow> str_int i = str_nat (nat i)"
  by (simp add: str_int_def)

lemma SemanticVersion_rendered:
  assumes "0 \<le> a" "0 \<le> b" "0 \<le> c"
  shows "SemanticVersion (str_int a @ ''.'' @ str_int b @ ''.'' @ str_int c) =
     Inr \<lparr>raw = str_int a @ ''.'' @ str_int b @ ''.'' @ str_int c,
           major = a, minor = b, patch = c, pre_release = None, build = None\<rparr>"
  using assms SemanticVersion_triple [of "nat a" "nat b" "nat c"]
  by (simp add: str_int_nonneg)

lemma str_int_0: "str_int 0 = ''0''"
  by (simp add: str_int_def str_nat_0)

lemma next_version_major:
  assumes "0 \<le> major v"
  shows "next_version v ''major'' =
     Inr \<lparr>raw = str_int (major v + 1) @ ''.0.0'', major = major v + 1, minor = 0, patch = 0,
           pre_release = None, build = None\<rparr>"
  using assms SemanticVersion_rendered [of "major v + 1" 0 0]
  by (simp add: next_version_def str_int_0)

lemma next_version_minor:
  assumes "0 \<le> major v" "0 \<le> minor v"
  shows "next_version v ''minor'' =
     Inr \<lparr>raw = str_int (major v) @ ''.'' @ str_int (minor v + 1) @ ''.0'',
           major = major v, minor = minor v + 1, patch = 0,
           pre_release = None, build = None\<rparr>"
  using assms SemanticVersion_rendered [of "major v" "minor v + 1" 0]
  by (simp add: next_version_def str_int_0)

lemma next_version_patch:
  assumes "0 \<le> major v" "0 \<le> minor v" "0 \<le> patch v"
  shows "next_version v ''patch'' =
     Inr \<lparr>raw = str_int (major v) @ ''.'' @ str_int (minor v) @ ''.'' @ str_int (patch v + 1),
           major = major v, minor = minor v, patch = patch v + 1,
           pre_release = None, build = None\<rparr>"
  using assms SemanticVersion_rendered [of "major v" "minor v" "patch v + 1"]
  by (simp add: next_version_def)

lemma py_next_version_returns:
  assumes "0 \<le> major v \<and> 0 \<le> minor v \<and> 0 \<le> patch v"
  shows "\<exists>v'. py_next_version sp v = Inr v'
          \<and> (0 \<le> major v' \<and> 0 \<le> minor v' \<and> 0 \<le> patch v')"
  using assms next_version_major [of v] next_version_minor [of v] next_version_patch [of v]
  by (simp add: py_next_version_def)

lemma candidate_returns:
  "0 \<le> major v \<and> 0 \<le> minor v \<and> 0 \<le> patch v \<Longrightarrow> \<exists>w. candidate sp v k = Inr w"
proof (induction k arbitrary: v)
  case 0
  show ?case by simp
next
  case (Suc k)
  from py_next_version_returns [OF Suc.prems, of sp] obtain v'
    where v': "py_next_version sp v = Inr v'"
      "0 \<le> major v' \<and> 0 \<le> minor v' \<and> 0 \<le> patch v'"
    by blast
  from Suc.IH [OF v'(2)] v'(1) show ?case by simp
qed

lemma search_loop_found:
  assumes "candidate sp v k = Inr w"
    and "semi_valid_python_version w \<and> marker w"
    and "\<forall>j<k. \<forall>u. candidate sp v j = Inr u \<longrightarrow> \<not> (semi_valid_python_version u \<and> marker u)"
  shows "search_loop marker sp v = Some (Inr w)"
  using assms
proof (induction k arbitrary: v)
  case 0
  then show ?case by (subst search_loop.simps) simp
next
  case (Suc k)
  from Suc.prems(3) have nv: "\<not> (semi_valid_python_version v \<and> marker v)"
    by (metis candidate.simps(1) zero_less_Suc)
  from Suc.prems(1) obtain v' where v': "py_next_version sp v = Inr v'"
    "candidate sp v' k = Inr w"
    by (cases "py_next_version sp v") auto
  have "\<forall>j<k. \<forall>u. candidate sp v' j = Inr u
          \<longrightarrow> \<not> (semi_valid_python_version u \<and> marker u)"
  proof (intro allI impI)
    fix j u assume "j < k" "candidate sp v' j = Inr u"
    with v'(1) have "Suc j < Suc k" "candidate sp v (Suc j) = Inr u" by simp_all
    with Suc.prems(3) show "\<not> (semi_valid_python_version u \<and> marker u)" by blast
  qed
  from Suc.IH [OF v'(2) Suc.prems(2) this] nv v'(1) show ?case
    by (subst search_loop.simps) auto
qed

lemma search_loop_Some_candidate:
  assumes "search_loop marker sp v = Some y"
  shows "0 \<le> major v \<and> 0 \<le> minor v \<and> 0 \<le> patch v \<longrightarrow>
         (\<exists>k u. candidate sp v k = Inr u \<and> semi_valid_python_version u \<and> marker u)"
proof (rule search_loop.raw_induct
    [where P = "\<lambda>m s x r. 0 \<le> major x \<and> 0 \<le> minor x \<and> 0 \<le> patch x \<longrightarrow>
         (\<exists>k u. candidate s x k = Inr u \<and> semi_valid_python_version u \<and> m u)",
      OF _ assms])
  fix loop :: "(semver \<Rightarrow> bool) \<Rightarrow> string list \<Rightarrow> semver \<Rightarrow> (error + semver) option"
  fix m s x r
  assume IH: "\<And>m' s' x' r'. loop m' s' x' = Some r' \<Longrightarrow>
      0 \<le> major x' \<and> 0 \<le> minor x' \<and> 0 \<le> patch x' \<longrightarrow>
      (\<exists>k u. candidate s' x' k = Inr u \<and> semi_valid_python_version u \<and> m' u)"
  assume body: "(if \<not> semi_valid_python_version x \<or> \<not> m x
      then case py_next_version s x of Inl e \<Rightarrow> Some (Inl e) | Inr v \<Rightarrow> loop m s v
      else Some (Inr x)) = Some r"
  show "0 \<le> major x \<and> 0 \<le> minor x \<and> 0 \<le> patch x \<longrightarrow>
         (\<exists>k u. candidate s x k = Inr u \<and> semi_valid_python_version u \<and> m u)"
  proof (intro impI)
    assume nn: "0 \<le> major x \<and> 0 \<le> minor x \<and> 0 \<le> patch x"
    show "\<exists>k u. candidate s x k = Inr u \<and> semi_valid_python_version u \<and> m u"
    proof (cases "semi_valid_python_version x \<and> m x")
      case True
      then have "candidate s x 0 = Inr x \<and> semi_valid_python_version x \<and> m x"
        by simp
      then show ?thesis by blast
    next
      case False
      from py_next_version_returns [OF nn, of s] obtain x'
        where x': "py_next_version s x = Inr x'"
          "0 \<le> major x' \<and> 0 \<le> minor x' \<and> 0 \<le> patch x'"
        by blast
      from body False x'(1) have "loop m s x' = Some r" by auto
      from IH [OF this] x'(2) obtain k u
        where "candidate s x' k = Inr u" "semi_valid_python_version u \<and> m u"
        by blast
      with x'(1) have "candidate s x (Suc k) = Inr u \<and> semi_valid_python_version u \<and> m u"
        by simp
      then show ?thesis by blast
    qed
  qed
qed

lemma search_loop_None:
  assumes "0 \<le> major v \<and> 0 \<le> minor v \<and> 0 \<le> patch v"
    and "\<forall>k u. candidate sp v k = Inr u \<longrightarrow> \<not> (semi_valid_python_version u \<and> marker u)"
  shows "search_loop marker sp v = None"
proof (cases "search_loop marker sp v")
  case None
  then show ?thesis .
next
  case (Some y)
  from search_loop_Some_candidate [OF Some] assms show ?thesis by blast
qed

lemma parse_3_8: "SemanticVersion ''3.8'' =
   Inr \<lparr>raw = ''3.8'', major = 3, minor = 8, patch = 0, pre_release = None, build = None\<rparr>"
  by code_simp

lemma find_minimum_3_8_never: "find_minimum_py_version unsatisfiable_marker ''3.8'' = None"
proof -
  have "search_loop unsatisfiable_marker (split CHR ''.'' ''3.8'')
     \<lparr>raw = ''3.8'', major = 3, minor = 8, patch = 0, pre_release = None, build = None\<rparr> = None"
    by (rule search_loop_None) (simp_all add: unsatisfiable_marker_def)
  then show ?thesis
    by (simp add: find_minimum_py_version_def parse_3_8)
qed

text \<open>
  C8 (as stated) fails: the loop has no iteration count and no error for an
  exhausted search. With a marker that no version satisfies, the search from 3.8
  does not return.
\<close>

theorem find_minimum_py_version_counterexample:
  "find_minimum_py_version unsatisfiable_marker ''3.8'' = None"
  by (rule find_minimum_3_8_never)

text \<open>
  C8 (as amended). The search has no bound on its iterations. From a project version
  that parses, every candidate exists (stepping never raises); the search returns
  the first candidate that is a semi-valid Python version and satisfies the marker,
  in shortened form; and when no candidate is such, it does not return.
\<close>

theorem find_minimum_py_version_search:
  "SemanticVersion project_py_version = Inr start \<longrightarrow>
     (\<forall>k. \<exists>v. candidate (split CHR ''.'' project_py_version) start k = Inr v)
     \<and> (\<forall>k v. candidate (split CHR ''.'' project_py_version) start k = Inr v
           \<and> semi_valid_python_version v \<and> marker v
           \<and> (\<forall>j<k. \<forall>u. candidate (split CHR ''.'' project_py_version) start j = Inr u
                 \<longrightarrow> \<not> (semi_valid_python_version u \<and> marker u))
           \<longrightarrow> find_minimum_py_version marker project_py_version = Some (Inr (shortened v)))
     \<and> ((\<forall>k v. candidate (split CHR ''.'' project_py_version) start k = Inr v
            \<longrightarrow> \<not> (semi_valid_python_version v \<and> marker v))
         \<longrightarrow> find_minimum_py_version marker project_py_version = None)"
proof (intro impI)
  assume p: "SemanticVersion project_py_version = Inr start"
  let ?sp = "split CHR ''.'' project_py_version"
  note nn = SemanticVersion_nonneg [OF p]
  have 1: "\<forall>k. \<exists>v. candidate ?sp start k = Inr v"
    using candidate_returns [OF nn] by blast
  have 2: "find_minimum_py_version marker project_py_version = Some (Inr (shortened v))"
    if "candidate ?sp start k = Inr v" "semi_valid_python_version v \<and> marker v"
      "\<forall>j<k. \<forall>u. candidate ?sp start j = Inr u
          \<longrightarrow> \<not> (semi_valid_python_version u \<and> marker u)"
    for k v
    using search_loop_found [OF that] p
    by (simp add: find_minimum_py_version_def)
  have 3: "find_minimum_py_version marker project_py_version = None"
    if "\<forall>k v. candidate ?sp start k = Inr v
          \<longrightarrow> \<not> (semi_valid_python_version v \<and> marker v)"
    using search_loop_None [OF nn that] p
    by (simp add: find_minimum_py_version_def)
  from 1 2 3 show "(\<forall>k. \<exists>v. candidate ?sp start k = Inr v)
     \<and> (\<forall>k v. candidate ?sp start k = Inr v
           \<and> semi_valid_python_version v \<and> marker v
           \<and> (\<forall>j<k. \<forall>u. candidate ?sp start j = Inr u
                 \<longrightarrow> \<not> (semi_valid_python_version u \<and> marker u))
           \<longrightarrow> find_minimum_py_version marker project_py_version = Some (Inr (shortened v)))
     \<and> ((\<forall>k v. candidate ?sp start k = Inr v
            \<longrightarrow> \<not> (semi_valid_python_version v \<and> marker v))
         \<longrightarrow> find_minimum_py_version marker project_py_version = None)"
    by blast
qed

lemma candidates_3_8:
  "candidate [''3'', ''8'']
     \<lparr>raw = ''3.8'', major = 3, minor = 8, patch = 0, pre_release = None, build = None\<rparr> 1 =
   Inr \<lparr>raw = ''3.9.0'', major = 3, minor = 9, patch = 0, pre_release = None, build = None\<rparr>"
  "candidate [''3'', ''8'']
     \<lparr>raw = ''3.8'', major = 3, minor = 8, patch = 0, pre_release = None, build = None\<rparr> 2 =
   Inr \<lparr>raw = ''3.10.0'', major = 3, minor = 10, patch = 0, pre_release = None, build = None\<rparr>"
  by code_simp+

theorem find_minimum_py_version_search_witness:
  "SemanticVersion ''3.8'' =
     Inr \<lparr>raw = ''3.8'', major = 3, minor = 8, patch = 0, pre_release = None, build = None\<rparr>
   \<and> candidate (split CHR ''.'' ''3.8'')
       \<lparr>raw = ''3.8'', major = 3, minor = 8, patch = 0, pre_release = None, build = None\<rparr> 2 =
     Inr \<lparr>raw = ''3.10.0'', major = 3, minor = 10, patch = 0, pre_release = None, build = None\<rparr>
   \<and> find_minimum_py_version from_3_10 ''3.8'' = Some (Inr ''3.10'')"
proof -
  let ?start = "\<lparr>raw = ''3.8'', major = 3, minor = 8, patch = 0, pre_release = None,
                  build = None\<rparr>"
  let ?found = "\<lparr>raw = ''3.10.0'', major = 3, minor = 10, patch = 0, pre_release = None,
                  build = None\<rparr>"
  have sp: "split CHR ''.'' ''3.8'' = [''3'', ''8'']" by simp
  have c2: "candidate (split CHR ''.'' ''3.8'') ?start 2 = Inr ?found"
    by (simp only: sp candidates_3_8)
  have good: "semi_valid_python_version ?found \<and> from_3_10 ?found"
    by (simp add: semi_valid_python_version_def from_3_10_def)
  have before: "\<forall>j<2. \<forall>u. candidate (split CHR ''.'' ''3.8'') ?start j = Inr u
      \<longrightarrow> \<not> (semi_valid_python_version u \<and> from_3_10 u)"
  proof (intro allI impI)
    fix j :: nat and u
    assume "j < 2" and c: "candidate (split CHR ''.'' ''3.8'') ?start j = Inr u"
    then consider "j = 0" | "j = 1" by linarith
    then show "\<not> (semi_valid_python_version u \<and> from_3_10 u)"
    proof cases
      case 1
      with c show ?thesis by (auto simp: from_3_10_def)
    next
      case 2
      with c candidates_3_8(1) show ?thesis by (auto simp: sp from_3_10_def)
    qed
  qed
  have sh: "shortened ?found = ''3.10''"
    by code_simp
  from find_minimum_py_version_search [of "''3.8''" ?start from_3_10] parse_3_8 c2 good before
  have "find_minimum_py_version from_3_10 ''3.8'' = Some (Inr (shortened ?found))"
    by blast
  with parse_3_8 c2 sh show ?thesis by simp
qed

section \<open>Splitting and joining\<close>

lemma split_no_sep: "p \<in> set (split c s) \<Longrightarrow> c \<notin> set p"
proof (induction s arbitrary: p)
  case Nil
  then show ?case by simp
next
  case (Cons x s)
  show ?case
  proof (cases "x = c")
    case True
    with Cons show ?thesis by auto
  next
    case False
    obtain w ws where ws: "split c s = w # ws"
      using split_not_Nil [of c s] by (cases "split c s") auto
    with Cons.prems False have "p = x # w \<or> p \<in> set ws" by simp
    then show ?thesis
    proof
      assume "p = x # w"
      moreover from ws Cons.IH [of w] have "c \<notin> set w" by simp
      ultimately show ?thesis using False by simp
    next
      assume "p \<in> set ws"
      with ws Cons.IH [of p] show ?thesis by simp
    qed
  qed
qed

lemma split_single: "c \<notin> set a \<Longrightarrow> split c a = [a]"
  by (induction a) auto

lemma split_append: "c \<notin> set a \<Longrightarrow> split c (a @ c # rest) = a # split c rest"
  by (induction a) auto

lemma split_join_Cons:
  "\<forall>p \<in> set (x # xs). c \<notin> set p \<Longrightarrow> split c (join [c] (x # xs)) = x # xs"
proof (induction xs arbitrary: x)
  case Nil
  then show ?case by (simp add: split_single)
next
  case (Cons y ys)
  from Cons.prems have "split c (join [c] (y # ys)) = y # ys"
    by (intro Cons.IH) simp
  with Cons.prems show ?case by (simp add: split_append)
qed

lemma split_join:
  "ps \<noteq> [] \<Longrightarrow> \<forall>p \<in> set ps. c \<notin> set p \<Longrightarrow> split c (join [c] ps) = ps"
  by (cases ps) (simp_all only: split_join_Cons list.distinct not_False_eq_True)

lemma join_split: "join [c] (split c s) = s"
proof (induction s)
  case Nil
  show ?case by simp
next
  case (Cons x s)
  obtain w ws where ws: "split c s = w # ws"
    using split_not_Nil [of c s] by (cases "split c s") auto
  with Cons show ?case by (cases ws) auto
qed

lemma split_truncated:
  assumes "0 < n"
  shows "split c (join [c] (take n (split c s))) = take n (split c s)"
proof (rule split_join)
  from assms split_not_Nil [of c s] show "take n (split c s) \<noteq> []" by simp
  show "\<forall>p \<in> set (take n (split c s)). c \<notin> set p"
    using split_no_sep [of _ c s] by (auto dest: in_set_takeD)
qed

lemma truncate_again:
  assumes "0 < n"
  shows "join [c] (take (length (split c (join [c] (take n (split c s))))) (split c s))
         = join [c] (take n (split c s))"
proof -
  have "take (length (take n (split c s))) (split c s) = take n (split c s)"
    by (simp add: min_def)
  with split_truncated [OF assms, of c s] show ?thesis by simp
qed

section \<open>Versions that are plain dotted numbers\<close>

lemma not_digit_dot: "\<not> is_digit CHR ''.''"
  by (simp add: is_digit_def)

lemma digits_no_dot:
  assumes "list_all is_digit p"
  shows "CHR ''.'' \<notin> set p"
proof
  assume "CHR ''.'' \<in> set p"
  with assms have "is_digit CHR ''.''" by (simp add: list_all_iff)
  with not_digit_dot show False by simp
qed

lemma set_join: "x \<in> set (join [c] ps) \<Longrightarrow> x = c \<or> (\<exists>p \<in> set ps. x \<in> set p)"
proof (induction ps rule: induct_list012)
  case 1
  then show ?case by simp
next
  case (2 p)
  then show ?case by simp
next
  case (3 p q ps)
  then show ?case by auto
qed

lemma parse_release_split:
  "parse_release s = Some L \<longleftrightarrow>
     list_all (\<lambda>p. p \<noteq> [] \<and> list_all is_digit p) (split CHR ''.'' s)
     \<and> L = map nat_of_digits (split CHR ''.'' s)"
  by (auto simp: parse_release_def Let_def)

lemma parse_release_chars:
  assumes "parse_release s = Some L" "x \<in> set s"
  shows "is_digit x \<or> x = CHR ''.''"
proof -
  from assms(2) have "x \<in> set (join ''.'' (split CHR ''.'' s))"
    by (simp add: join_split)
  from set_join [OF this] assms(1) show ?thesis
    by (auto simp: parse_release_split list_all_iff)
qed

lemma parse_release_join:
  assumes "parts \<noteq> []" "list_all (\<lambda>p. p \<noteq> [] \<and> list_all is_digit p) parts"
  shows "parse_release (join ''.'' parts) = Some (map nat_of_digits parts)"
proof -
  have "\<forall>p \<in> set parts. CHR ''.'' \<notin> set p"
  proof
    fix p assume "p \<in> set parts"
    with assms(2) have "list_all is_digit p" by (simp add: list_all_iff)
    then show "CHR ''.'' \<notin> set p" by (rule digits_no_dot)
  qed
  with assms(1) have "split CHR ''.'' (join ''.'' parts) = parts"
    by (rule split_join)
  with assms(2) show ?thesis by (simp add: parse_release_split)
qed

lemma parse_release_truncated:
  assumes "parse_release s = Some L" "0 < n"
  shows "parse_release (join ''.'' (take n (split CHR ''.'' s))) = Some (take n L)"
proof -
  from assms(1) have all: "list_all (\<lambda>p. p \<noteq> [] \<and> list_all is_digit p) (split CHR ''.'' s)"
    and L: "L = map nat_of_digits (split CHR ''.'' s)"
    by (simp_all add: parse_release_split)
  from all have "list_all (\<lambda>p. p \<noteq> [] \<and> list_all is_digit p) (take n (split CHR ''.'' s))"
    by (auto simp: list_all_iff dest: in_set_takeD)
  moreover from assms(2) split_not_Nil [of "CHR ''.''" s]
  have "take n (split CHR ''.'' s) \<noteq> []" by simp
  ultimately show ?thesis
    using parse_release_join [of "take n (split CHR ''.'' s)"] L by (simp add: take_map)
qed

lemma match_number_Some:
  assumes "match_number s = Some (ds, r)"
  shows "s = ds @ r \<and> numeric ds \<and> (r = [] \<or> \<not> is_digit (hd r))"
proof -
  from assms have ds: "ds = takeWhile is_digit s" and r: "r = dropWhile is_digit s"
    and n: "numeric ds"
    by (auto simp: match_number_def Let_def split: if_splits)
  have "r = [] \<or> \<not> is_digit (hd r)"
    unfolding r using hd_dropWhile [of is_digit s] by blast
  with ds r n show ?thesis by simp
qed

lemma match_dot_number_cases:
  assumes "match_dot_number s = (m, r)"
  shows "(m = None \<and> r = s)
     \<or> (\<exists>ds. m = Some ds \<and> s = CHR ''.'' # ds @ r \<and> numeric ds
              \<and> (r = [] \<or> \<not> is_digit (hd r)))"
proof (cases s)
  case Nil
  with assms show ?thesis by (simp add: match_dot_number_def)
next
  case (Cons c t)
  show ?thesis
  proof (cases "c = CHR ''.''")
    case False
    with assms Cons show ?thesis by (simp add: match_dot_number_def)
  next
    case True
    show ?thesis
    proof (cases "match_number t")
      case None
      with assms Cons True show ?thesis by (simp add: match_dot_number_def)
    next
      case (Some a)
      obtain ds r' where a: "a = (ds, r')" by (cases a)
      with assms Cons True Some have "m = Some ds" "r = r'"
        by (simp_all add: match_dot_number_def)
      with match_number_Some [OF Some [unfolded a]] Cons True show ?thesis by simp
    qed
  qed
qed

lemma match_suffix_skip:
  "s = [] \<or> hd s \<noteq> lead \<Longrightarrow> match_suffix lead ident s = (None, s)"
  by (cases s) (auto simp: match_suffix_def)

lemma match_number_numeric:
  assumes "numeric ds" "rest = [] \<or> \<not> is_digit (hd rest)"
  shows "match_number (ds @ rest) = Some (ds, rest)"
proof -
  from assms(1) have all: "\<forall>x \<in> set ds. is_digit x"
    by (simp add: numeric_def list_all_iff)
  from assms(2) have t: "takeWhile is_digit rest = []" and d: "dropWhile is_digit rest = rest"
    by (cases rest; simp)+
  from all t have "takeWhile is_digit (ds @ rest) = ds"
    by (simp add: takeWhile_append2)
  moreover from all d have "dropWhile is_digit (ds @ rest) = rest"
    by (simp add: dropWhile_append2)
  ultimately show ?thesis using assms(1) by (simp add: match_number_def)
qed

lemma match_dot_number_numeric:
  assumes "numeric ds" "rest = [] \<or> \<not> is_digit (hd rest)"
  shows "match_dot_number (CHR ''.'' # ds @ rest) = (Some ds, rest)"
  using match_number_numeric [OF assms] by (simp add: match_dot_number_def)

lemma match_dot_number_Nil: "match_dot_number [] = (None, [])"
  by (simp add: match_dot_number_def)

lemma match_suffix_Nil: "match_suffix lead ident [] = (None, [])"
  by (simp add: match_suffix_def)

lemma SemanticVersion_one:
  assumes "numeric a"
  shows "SemanticVersion a =
     Inr \<lparr>raw = a, major = int (nat_of_digits a), minor = 0, patch = 0,
           pre_release = None, build = None\<rparr>"
  using match_number_numeric [OF assms, of "[]"]
  by (simp add: SemanticVersion_def match_dot_number_Nil match_suffix_Nil)

lemma SemanticVersion_two:
  assumes "numeric a" "numeric b"
  shows "SemanticVersion (a @ CHR ''.'' # b) =
     Inr \<lparr>raw = a @ CHR ''.'' # b, major = int (nat_of_digits a),
           minor = int (nat_of_digits b), patch = 0, pre_release = None, build = None\<rparr>"
proof -
  have 1: "match_number (a @ CHR ''.'' # b) = Some (a, CHR ''.'' # b)"
    by (rule match_number_numeric [OF assms(1)]) (simp add: not_digit_dot)
  have 2: "match_dot_number (CHR ''.'' # b) = (Some b, [])"
    using match_dot_number_numeric [OF assms(2), of "[]"] by simp
  show ?thesis
    by (simp add: SemanticVersion_def 1 2 match_dot_number_Nil match_suffix_Nil)
qed

lemma SemanticVersion_three:
  assumes "numeric a" "numeric b" "numeric c"
  shows "SemanticVersion (a @ CHR ''.'' # b @ CHR ''.'' # c) =
     Inr \<lparr>raw = a @ CHR ''.'' # b @ CHR ''.'' # c, major = int (nat_of_digits a),
           minor = int (nat_of_digits b), patch = int (nat_of_digits c),
           pre_release = None, build = None\<rparr>"
proof -
  have 1: "match_number (a @ CHR ''.'' # b @ CHR ''.'' # c) =
      Some (a, CHR ''.'' # b @ CHR ''.'' # c)"
    by (rule match_number_numeric [OF assms(1)]) (simp add: not_digit_dot)
  have 2: "match_dot_number (CHR ''.'' # b @ CHR ''.'' # c) = (Some b, CHR ''.'' # c)"
    by (rule match_dot_number_numeric [OF assms(2)]) (simp add: not_digit_dot)
  have 3: "match_dot_number (CHR ''.'' # c) = (Some c, [])"
    using match_dot_number_numeric [OF assms(3), of "[]"] by simp
  show ?thesis
    by (simp add: SemanticVersion_def 1 2 3 match_suffix_Nil)
qed

lemma parts_cases:
  assumes "1 \<le> length parts" "length parts \<le> 3"
  obtains a where "parts = [a]"
    | a b where "parts = [a, b]"
    | a b c where "parts = [a, b, c]"
proof (cases parts)
  case Nil
  with assms show ?thesis by simp
next
  case p1: (Cons a t1)
  show ?thesis
  proof (cases t1)
    case Nil
    with p1 that(1) show ?thesis by simp
  next
    case p2: (Cons b t2)
    show ?thesis
    proof (cases t2)
      case Nil
      with p1 p2 that(2) show ?thesis by simp
    next
      case p3: (Cons c t3)
      with p1 p2 assms(2) have "t3 = []" by simp
      with p1 p2 p3 that(3) show ?thesis by simp
    qed
  qed
qed

lemma SemanticVersion_parts:
  assumes "list_all numeric parts" "1 \<le> length parts" "length parts \<le> 3"
  shows "\<exists>v. SemanticVersion (join ''.'' parts) = Inr v
           \<and> major v = int (nat_of_digits (hd parts))
           \<and> pre_release v = None \<and> build v = None"
  using assms(2,3)
proof (cases parts rule: parts_cases)
  case (1 a)
  with assms(1) SemanticVersion_one [of a] show ?thesis by simp
next
  case (2 a b)
  with assms(1) SemanticVersion_two [of a b] show ?thesis by simp
next
  case (3 a b c)
  with assms(1) SemanticVersion_three [of a b c] show ?thesis by simp
qed

lemma SemanticVersion_Inr_steps:
  assumes "SemanticVersion s = Inr v"
  obtains mj r1 mn r2 pt r3 pre r4 bld r5 where
    "match_number s = Some (mj, r1)"
    "match_dot_number r1 = (mn, r2)"
    "match_dot_number r2 = (pt, r3)"
    "match_suffix CHR ''-'' pre_release_identifier r3 = (pre, r4)"
    "match_suffix CHR ''+'' build_identifier r4 = (bld, r5)"
    "r5 = [] \<or> r5 = [CHR 0x0A]"
    "major v = int (nat_of_digits mj)"
    "pre_release v = pre" "build v = bld"
proof -
  from assms obtain mj r1 where 1: "match_number s = Some (mj, r1)"
    by (cases "match_number s") (auto simp: SemanticVersion_def)
  obtain mn r2 where 2: "match_dot_number r1 = (mn, r2)"
    by (cases "match_dot_number r1")
  obtain pt r3 where 3: "match_dot_number r2 = (pt, r3)"
    by (cases "match_dot_number r2")
  obtain pre r4 where 4: "match_suffix CHR ''-'' pre_release_identifier r3 = (pre, r4)"
    by (cases "match_suffix CHR ''-'' pre_release_identifier r3")
  obtain bld r5 where 5: "match_suffix CHR ''+'' build_identifier r4 = (bld, r5)"
    by (cases "match_suffix CHR ''+'' build_identifier r4")
  from assms 1 2 3 4 5 have 6: "r5 = [] \<or> r5 = [CHR 0x0A]"
    by (simp add: SemanticVersion_def split: if_splits)
  with assms 1 2 3 4 5 have "major v = int (nat_of_digits mj)"
    "pre_release v = pre" "build v = bld"
    by (auto simp: SemanticVersion_def)
  with 1 2 3 4 5 6 that show ?thesis by blast
qed

lemma release_semver_shape:
  assumes sv: "SemanticVersion s = Inr v" and pr: "parse_release s = Some L"
  shows "1 \<le> length (split CHR ''.'' s) \<and> length (split CHR ''.'' s) \<le> 3
     \<and> list_all numeric (split CHR ''.'' s)
     \<and> major v = int (nat_of_digits (hd (split CHR ''.'' s)))
     \<and> pre_release v = None \<and> build v = None"
proof -
  from sv obtain mj r1 mn r2 pt r3 pre r4 bld r5 where
    m1: "match_number s = Some (mj, r1)" and
    m2: "match_dot_number r1 = (mn, r2)" and
    m3: "match_dot_number r2 = (pt, r3)" and
    m4: "match_suffix CHR ''-'' pre_release_identifier r3 = (pre, r4)" and
    m5: "match_suffix CHR ''+'' build_identifier r4 = (bld, r5)" and
    e: "r5 = [] \<or> r5 = [CHR 0x0A]" and
    mj: "major v = int (nat_of_digits mj)" and
    pb: "pre_release v = pre" "build v = bld"
    by (rule SemanticVersion_Inr_steps)
  have chars: "is_digit x \<or> x = CHR ''.''" if "x \<in> set s" for x
    using parse_release_chars [OF pr that] .
  have dot: "r = [] \<or> hd r = CHR ''.''"
    if "set r \<subseteq> set s" "r = [] \<or> \<not> is_digit (hd r)" for r
  proof (cases r)
    case Nil
    then show ?thesis by simp
  next
    case (Cons x t)
    with that(1) have "x \<in> set s" by auto
    from chars [OF this] that(2) Cons show ?thesis by simp
  qed
  from match_number_Some [OF m1]
  have s: "s = mj @ r1" and nmj: "numeric mj" and b1: "r1 = [] \<or> \<not> is_digit (hd r1)"
    by simp_all
  from s have sub1: "set r1 \<subseteq> set s" by auto
  from match_dot_number_cases [OF m2] b1
  have b2: "r2 = [] \<or> \<not> is_digit (hd r2)" and sub2': "set r2 \<subseteq> set r1"
    by auto
  from sub1 sub2' have sub2: "set r2 \<subseteq> set s" by blast
  from match_dot_number_cases [OF m3] b2
  have b3: "r3 = [] \<or> \<not> is_digit (hd r3)" and sub3': "set r3 \<subseteq> set r2"
    by auto
  from sub2 sub3' have sub3: "set r3 \<subseteq> set s" by blast
  from dot [OF sub3 b3] have d3: "r3 = [] \<or> hd r3 = CHR ''.''" .
  then have "r3 = [] \<or> hd r3 \<noteq> CHR ''-''" by auto
  from match_suffix_skip [OF this] m4 have pre: "pre = None" and r4: "r4 = r3" by simp_all
  from d3 have "r3 = [] \<or> hd r3 \<noteq> CHR ''+''" by auto
  from match_suffix_skip [OF this] m5 r4 have bld: "bld = None" and r5: "r5 = r3" by simp_all
  from e r5 d3 have r3: "r3 = []" by auto
  have nd: "CHR ''.'' \<notin> set x" if "numeric x" for x
    using that digits_no_dot [of x] by (simp add: numeric_def)
  have shape: "(split CHR ''.'' s = [mj])
      \<or> (\<exists>b. numeric b \<and> split CHR ''.'' s = [mj, b])
      \<or> (\<exists>b c. numeric b \<and> numeric c \<and> split CHR ''.'' s = [mj, b, c])"
  proof (cases mn)
    case None
    with match_dot_number_cases [OF m2] have "r2 = r1" by simp
    with m2 m3 None have "r3 = r1" by simp
    with r3 s have "s = mj" by simp
    with nd [OF nmj] show ?thesis by (simp add: split_single)
  next
    case (Some b)
    with match_dot_number_cases [OF m2]
    have r1: "r1 = CHR ''.'' # b @ r2" and nb: "numeric b" by simp_all
    show ?thesis
    proof (cases pt)
      case None
      with match_dot_number_cases [OF m3] have "r3 = r2" by simp
      with r3 r1 s have "s = mj @ CHR ''.'' # b" by simp
      with nd [OF nmj] nd [OF nb] nb show ?thesis
        by (simp add: split_append split_single)
    next
      case (Some c)
      with match_dot_number_cases [OF m3]
      have r2: "r2 = CHR ''.'' # c @ r3" and nc: "numeric c" by simp_all
      with r3 r1 s have "s = mj @ CHR ''.'' # b @ CHR ''.'' # c" by simp
      with nd [OF nmj] nd [OF nb] nd [OF nc] nb nc show ?thesis
        by (simp add: split_append split_single)
    qed
  qed
  with nmj mj pb pre bld show ?thesis by auto
qed

lemma truncated_release_semver:
  assumes "SemanticVersion s = Inr v" "parse_release s = Some L" "0 < n"
  shows "\<exists>v'. SemanticVersion (join ''.'' (take n (split CHR ''.'' s))) = Inr v'
           \<and> major v' = major v"
proof -
  let ?parts = "split CHR ''.'' s"
  from release_semver_shape [OF assms(1,2)]
  have len: "1 \<le> length ?parts" "length ?parts \<le> 3" and num: "list_all numeric ?parts"
    and mj: "major v = int (nat_of_digits (hd ?parts))"
    by simp_all
  from num have 1: "list_all numeric (take n ?parts)"
    by (auto simp: list_all_iff dest: in_set_takeD)
  from len assms(3) have 2: "1 \<le> length (take n ?parts)" "length (take n ?parts) \<le> 3"
    by simp_all
  from assms(3) have 3: "hd (take n ?parts) = hd ?parts"
    by (cases n) simp_all
  from SemanticVersion_parts [OF 1 2] 3 mj show ?thesis by auto
qed

lemma str_nat_no_dot: "CHR ''.'' \<notin> set (str_nat n)"
  by (rule digits_no_dot) (rule str_nat_digits)

lemma split_str_nat: "split CHR ''.'' (str_nat a) = [str_nat a]"
  by (simp add: split_single str_nat_no_dot)

lemma split_rendered:
  "split CHR ''.'' (str_nat a @ CHR ''.'' # str_nat b @ CHR ''.'' # str_nat c) =
     [str_nat a, str_nat b, str_nat c]"
  by (simp add: split_append split_single str_nat_no_dot)

lemma split_rendered_two:
  "split CHR ''.'' (str_nat a @ CHR ''.'' # str_nat b) = [str_nat a, str_nat b]"
  by (simp add: split_append split_single str_nat_no_dot)

lemma strip_zeros_append_zeros: "strip_zeros (xs @ replicate k 0) = strip_zeros xs"
proof -
  have "dropWhile (\<lambda>n. n = 0) (replicate k (0::nat) @ rev xs) = dropWhile (\<lambda>n. n = 0) (rev xs)"
    by (induction k) simp_all
  then show ?thesis by (simp add: strip_zeros_def)
qed

lemma strip_zeros_decompose: "\<exists>k. r = strip_zeros r @ replicate k 0"
proof -
  let ?P = "\<lambda>n::nat. n = 0"
  have "takeWhile ?P (rev r) = replicate (length (takeWhile ?P (rev r))) 0"
    by (rule replicate_length_same [symmetric]) (auto dest: set_takeWhileD)
  moreover have "rev r = takeWhile ?P (rev r) @ dropWhile ?P (rev r)"
    by simp
  then have "r = rev (dropWhile ?P (rev r)) @ rev (takeWhile ?P (rev r))"
    by (metis rev_append rev_rev_ident)
  ultimately have "r = strip_zeros r @ replicate (length (takeWhile ?P (rev r))) 0"
    by (metis strip_zeros_def rev_replicate)
  then show ?thesis by blast
qed

lemma strip_zeros_idem: "strip_zeros (strip_zeros r) = strip_zeros r"
proof -
  from strip_zeros_decompose [of r] obtain k where "r = strip_zeros r @ replicate k 0" ..
  then have "strip_zeros r = strip_zeros (strip_zeros r @ replicate k 0)" by simp
  then show ?thesis by (simp add: strip_zeros_append_zeros)
qed

lemma length_strip_zeros: "length (strip_zeros r) \<le> length r"
  by (simp add: strip_zeros_def) (metis length_dropWhile_le length_rev)

lemma release_eq_truncated:
  assumes "release_eq L v"
  shows "release_eq L (take (length v) L)"
proof -
  from strip_zeros_decompose [of L] obtain k where L: "L = strip_zeros L @ replicate k 0" ..
  from assms have "length (strip_zeros L) \<le> length v"
    using length_strip_zeros [of v] by (simp add: release_eq_def)
  then have "take (length v) (strip_zeros L @ replicate k 0)
      = strip_zeros L @ replicate (min (length v - length (strip_zeros L)) k) 0"
    by simp
  with L have "take (length v) L
      = strip_zeros L @ replicate (min (length v - length (strip_zeros L)) k) 0"
    by simp
  then have "strip_zeros (take (length v) L) = strip_zeros (strip_zeros L)"
    by (simp only: strip_zeros_append_zeros)
  then show ?thesis by (simp add: release_eq_def strip_zeros_idem)
qed

lemma wildcard_release: "parse_release s = Some L \<Longrightarrow> wildcard s = None"
proof (rule ccontr)
  assume pr: "parse_release s = Some L" and "wildcard s \<noteq> None"
  then have len: "2 \<le> length s" and d: "drop (length s - 2) s = ''.*''"
    by (simp_all add: wildcard_def split: if_splits)
  from d have "CHR ''*'' \<in> set (drop (length s - 2) s)" by simp
  then have "CHR ''*'' \<in> set s" by (rule in_set_dropD)
  from parse_release_chars [OF pr this] show False by (simp add: is_digit_def)
qed

section \<open>Applying update_specifier_set twice\<close>

lemma pinning_rewritable: "pinning s \<Longrightarrow> rewritable s"
  by (auto simp: pinning_def rewritable_def)

lemma bounding_rewritable: "bounding s \<Longrightarrow> rewritable s"
  by (auto simp: bounding_def rewritable_def)

text \<open>
  The membership test on a latest version that is a plain dotted number: the numbers
  of the version are those of its text, padded with zeros, and zeros at the end do
  not change what a specifier answers.
\<close>

lemma prefix_match_pad: "prefix_match (L @ replicate k 0) p = prefix_match L p"
proof -
  have "min (length p - length L) (k + length p) = length p - length L"
    "min (length p - length L) (length p) = length p - length L"
    by linarith+
  then have "take (length p) (L @ replicate (k + length p) 0) =
      take (length p) (L @ replicate (length p) 0)"
    by simp
  then show ?thesis
    by (simp add: prefix_match_def replicate_add)
qed

lemma release_pad:
  "release_lt (L @ replicate k 0) v = release_lt L v"
  "release_lt v (L @ replicate k 0) = release_lt v L"
  "release_eq (L @ replicate k 0) v = release_eq L v"
  by (simp_all add: release_lt_def release_eq_def strip_zeros_append_zeros)

lemma specifier_contains_pad:
  "specifier_contains t (L @ replicate k 0) = specifier_contains t L"
  by (simp add: specifier_contains_def release_pad prefix_match_pad
      split: option.splits operator.splits)

lemma semver_release:
  assumes sv: "SemanticVersion s = Inr v" and pr: "parse_release s = Some L"
  shows "pre_release v = None
     \<and> [nat (major v), nat (minor v), nat (patch v)] = L @ replicate (3 - length L) 0"
proof -
  let ?parts = "split CHR ''.'' s"
  from release_semver_shape [OF sv pr]
  have len: "1 \<le> length ?parts" "length ?parts \<le> 3" and num: "list_all numeric ?parts"
    and pre: "pre_release v = None"
    by simp_all
  from pr have L: "L = map nat_of_digits ?parts" by (simp add: parse_release_split)
  have s: "s = join ''.'' ?parts" by (simp add: join_split)
  from len show ?thesis
  proof (cases ?parts rule: parts_cases)
    case (1 a)
    with s have "s = a" by simp
    with num 1 SemanticVersion_one [of a] sv
    have "major v = int (nat_of_digits a)" "minor v = 0" "patch v = 0" by auto
    with L 1 pre show ?thesis by (simp add: numeral_2_eq_2)
  next
    case (2 a b)
    with s have "s = a @ CHR ''.'' # b" by simp
    with num 2 SemanticVersion_two [of a b] sv
    have "major v = int (nat_of_digits a)" "minor v = int (nat_of_digits b)" "patch v = 0"
      by auto
    with L 2 pre show ?thesis by simp
  next
    case (3 a b c)
    with s have "s = a @ CHR ''.'' # b @ CHR ''.'' # c" by simp
    with num 3 SemanticVersion_three [of a b c] sv
    have "major v = int (nat_of_digits a)" "minor v = int (nat_of_digits b)"
      "patch v = int (nat_of_digits c)"
      by auto
    with L 3 pre show ?thesis by simp
  qed
qed

lemma specifier_set_contains_release:
  assumes "SemanticVersion s = Inr v" "parse_release s = Some L"
  shows "specifier_set_contains v specs \<longleftrightarrow> (\<forall>t \<in> set specs. specifier_contains t L)"
  using semver_release [OF assms]
  by (simp add: specifier_set_contains_def list_all_iff specifier_contains_pad)

lemma those_plain:
  "those (map (Specifier plain_packaging) new) = Some built \<longleftrightarrow>
     built = new \<and> list_all valid_specifier new"
  by (induction new arbitrary: built) (auto simp: Specifier_plain split: option.splits)

lemma filter_at_most_one:
  assumes "length (filter P xs) \<le> 1" "x \<in> set xs" "P x" "y \<in> set xs" "P y"
  shows "x = y"
proof -
  from assms(2,3) have x: "x \<in> set (filter P xs)" by simp
  from assms(4,5) have y: "y \<in> set (filter P xs)" by simp
  show ?thesis
  proof (cases "filter P xs")
    case Nil
    from x [unfolded Nil] show ?thesis by simp
  next
    case (Cons z zs)
    with assms(1) have "zs = []" by simp
    with x [unfolded Cons] y [unfolded Cons] show ?thesis by simp
  qed
qed

lemma find_None_set: "find P xs = None \<longleftrightarrow> (\<forall>x \<in> set xs. \<not> P x)"
  by (auto simp: find_None_iff)

lemma find_Some_set: "find P xs = Some x \<Longrightarrow> x \<in> set xs \<and> P x"
  by (auto simp: find_Some_iff)

text \<open>
  A second application returns the set it is given when the one specifier it can
  rewrite is rewritten to itself.
\<close>

lemma update_again:
  assumes p: "SemanticVersion latest_version = Inr latest"
    and m: "contains lib latest again = Some member"
    and uniq: "\<forall>t \<in> set again. rewritable t \<longrightarrow> t = r"
    and ok: "Specifier lib r = Some r"
    and pin: "pinning r \<Longrightarrow> r \<in> set again \<Longrightarrow>
        join ''.'' (take (length (split CHR ''.'' (version r))) (split CHR ''.'' latest_version))
          = version r"
    and bnd: "\<not> member \<Longrightarrow>
        r \<in> set again \<and> bounding r \<and> bound_loop latest [r] = Inr (Some (r, [r]))"
  shows "update_specifier_set lib latest_version again = Inr (set again)"
proof (cases member)
  case True
  with m have m': "contains lib latest again = Some True" by simp
  show ?thesis
  proof (cases "find pinning again")
    case None
    with update_member [OF p m'] show ?thesis by simp
  next
    case (Some t)
    from find_Some_set [OF Some] have t: "t \<in> set again" "pinning t" by simp_all
    with uniq pinning_rewritable have tr: "t = r" by blast
    with t pin have "\<lparr>operator = operator t,
        version = join ''.'' (take (length (split CHR ''.'' (version t)))
                                (split CHR ''.'' latest_version))\<rparr> = t"
      by simp
    with update_member [OF p m'] Some t(1) tr ok show ?thesis
      by (auto simp: insert_absorb)
  qed
next
  case False
  with m have m': "contains lib latest again = Some False" by simp
  from bnd [OF False] have r: "r \<in> set again" "bounding r"
    and again: "bound_loop latest [r] = Inr (Some (r, [r]))"
    by simp_all
  from r have "find bounding again \<noteq> None" by (auto simp: find_None_set)
  then obtain t where Some: "find bounding again = Some t" by blast
  from find_Some_set [OF Some] have t: "t \<in> set again" "bounding t" by simp_all
  with uniq bounding_rewritable have "t = r" by blast
  with update_not_member [OF p m'] Some again r(1) ok show ?thesis
    by (auto simp del: bound_loop.simps simp: insert_absorb)
qed

lemma specifier_contains_Equal:
  assumes "operator t = Equal" "parse_release (version t) = Some v"
  shows "specifier_contains t L = release_eq L v"
  using assms wildcard_release [OF assms(2)]
  by (simp add: specifier_contains_def)

lemma parse_release_length:
  "parse_release s = Some L \<Longrightarrow> length L = length (split CHR ''.'' s)"
  by (simp add: parse_release_split)

text \<open>The bound of a \<open><\<close> specifier after rewriting.\<close>

lemma less_bound_major:
  assumes "0 \<le> major lv" "operator s = Less" "length (split CHR ''.'' (version s)) = 1"
  shows "bound_loop lv [s] =
      Inr (Some (s, [\<lparr>operator = Less, version = str_nat (nat (major lv + 1))\<rparr>]))"
  using assms next_version_major [OF assms(1)]
  by (simp add: str_int_nonneg)

lemma less_bound_minor:
  assumes "0 \<le> major lv" "0 \<le> minor lv" "operator s = Less"
    "length (split CHR ''.'' (version s)) = 2"
  shows "bound_loop lv [s] =
      Inr (Some (s, [\<lparr>operator = Less,
                      version = str_nat (nat (major lv)) @ CHR ''.''
                                # str_nat (nat (minor lv + 1))\<rparr>]))"
proof -
  have "split CHR ''.'' (str_nat (nat (major lv)) @ CHR ''.'' # str_nat (nat (minor lv + 1))
          @ CHR ''.'' # str_nat 0) =
      [str_nat (nat (major lv)), str_nat (nat (minor lv + 1)), str_nat 0]"
    by (rule split_rendered)
  with assms next_version_minor [OF assms(1,2)] show ?thesis
    by (simp add: str_int_nonneg str_nat_0)
qed

lemma less_bound_patch:
  assumes "0 \<le> major lv" "0 \<le> minor lv" "0 \<le> patch lv" "operator s = Less"
    "length (split CHR ''.'' (version s)) = 3"
  shows "bound_loop lv [s] =
      Inr (Some (s, [\<lparr>operator = Less,
                      version = str_nat (nat (major lv)) @ CHR ''.'' # str_nat (nat (minor lv))
                                @ CHR ''.'' # str_nat (nat (patch lv + 1))\<rparr>]))"
  using assms next_version_patch [OF assms(1,2,3)]
  by (simp add: str_int_nonneg str_semver_def)

lemma less_bound:
  assumes nn: "0 \<le> major lv \<and> 0 \<le> minor lv \<and> 0 \<le> patch lv"
    and s: "operator s = Less"
    and r: "bound_loop lv [s] = Inr (Some (q, new))"
  shows "\<exists>Y. new = [\<lparr>operator = Less, version = Y\<rparr>]
      \<and> bound_loop lv [\<lparr>operator = Less, version = Y\<rparr>] =
          Inr (Some (\<lparr>operator = Less, version = Y\<rparr>, [\<lparr>operator = Less, version = Y\<rparr>]))"
proof -
  let ?n = "length (split CHR ''.'' (version s))"
  from r s have "?n = 1 \<or> ?n = 2 \<or> ?n = 3"
    by (auto split: if_splits)
  then consider "?n = 1" | "?n = 2" | "?n = 3" by blast
  then show ?thesis
  proof cases
    case 1
    let ?Y = "str_nat (nat (major lv + 1))"
    let ?t = "\<lparr>operator = Less, version = ?Y\<rparr>"
    from nn s 1 r less_bound_major [of lv s] have "new = [?t]" by simp
    moreover have "bound_loop lv [?t] = Inr (Some (?t, [?t]))"
      using nn by (intro less_bound_major) (simp_all add: split_str_nat)
    ultimately show ?thesis by blast
  next
    case 2
    let ?Y = "str_nat (nat (major lv)) @ CHR ''.'' # str_nat (nat (minor lv + 1))"
    let ?t = "\<lparr>operator = Less, version = ?Y\<rparr>"
    from nn s 2 r less_bound_minor [of lv s] have "new = [?t]" by simp
    moreover have "bound_loop lv [?t] = Inr (Some (?t, [?t]))"
      using nn by (intro less_bound_minor) (simp_all add: split_rendered_two)
    ultimately show ?thesis by blast
  next
    case 3
    let ?Y = "str_nat (nat (major lv)) @ CHR ''.'' # str_nat (nat (minor lv))
                @ CHR ''.'' # str_nat (nat (patch lv + 1))"
    let ?t = "\<lparr>operator = Less, version = ?Y\<rparr>"
    from nn s 3 r less_bound_patch [of lv s] have "new = [?t]" by simp
    moreover have "bound_loop lv [?t] = Inr (Some (?t, [?t]))"
      using nn by (intro less_bound_patch) (simp_all add: split_rendered)
    ultimately show ?thesis by blast
  qed
qed

lemma less_equal_again:
  assumes p: "SemanticVersion latest_version = Inr lv" and n: "0 < n"
  shows "bound_loop lv
      [\<lparr>operator = LessEqual,
         version = join ''.'' (take n (split CHR ''.'' latest_version))\<rparr>] =
    Inr (Some (\<lparr>operator = LessEqual,
                  version = join ''.'' (take n (split CHR ''.'' latest_version))\<rparr>,
               [\<lparr>operator = LessEqual,
                  version = join ''.'' (take n (split CHR ''.'' latest_version))\<rparr>]))"
  using truncate_again [OF n, of "CHR ''.''" latest_version] SemanticVersion_raw [OF p]
  by simp

lemma compatible_again:
  assumes p: "SemanticVersion latest_version = Inr lv"
    and pr: "parse_release latest_version = Some L" and n: "0 < n"
  shows "bound_loop lv
      [\<lparr>operator = Compatible,
         version = join ''.'' (take n (split CHR ''.'' latest_version))\<rparr>] =
    Inr (Some (\<lparr>operator = Compatible,
                  version = join ''.'' (take n (split CHR ''.'' latest_version))\<rparr>,
               [\<lparr>operator = Compatible,
                  version = join ''.'' (take n (split CHR ''.'' latest_version))\<rparr>]))"
proof -
  from truncated_release_semver [OF p pr n] obtain v'
    where "SemanticVersion (join ''.'' (take n (split CHR ''.'' latest_version))) = Inr v'"
      "major v' = major lv"
    by blast
  with truncate_again [OF n, of "CHR ''.''" latest_version] SemanticVersion_raw [OF p]
  show ?thesis by simp
qed

lemma equal_truncated_contains:
  assumes pr: "parse_release latest_version = Some L"
    and s: "operator s = Equal" "wildcard (version s) = None" "specifier_contains s L"
  shows "specifier_contains
      \<lparr>operator = Equal,
        version = join ''.'' (take (length (split CHR ''.'' (version s)))
                               (split CHR ''.'' latest_version))\<rparr> L"
proof -
  let ?n = "length (split CHR ''.'' (version s))"
  from s obtain v where v: "parse_release (version s) = Some v" "release_eq L v"
    by (auto simp: specifier_contains_def split: option.splits)
  from parse_release_length [OF v(1)] have len: "length v = ?n" .
  have n: "0 < ?n" by (rule length_split_pos)
  from parse_release_truncated [OF pr n]
  have "specifier_contains
      \<lparr>operator = Equal, version = join ''.'' (take ?n (split CHR ''.'' latest_version))\<rparr> L
    = release_eq L (take ?n L)"
    by (intro specifier_contains_Equal) simp_all
  with release_eq_truncated [OF v(2)] len show ?thesis by simp
qed

lemma update_twice_member:
  assumes H1: "length (filter rewritable current) \<le> 1"
    and Hw: "\<forall>s \<in> set current. operator s = Equal \<longrightarrow> wildcard (version s) = None"
    and p: "SemanticVersion latest_version = Inr lv"
    and pr: "parse_release latest_version = Some L"
    and ef: "\<forall>s \<in> set current. specifier_contains s L"
    and U: "update_specifier_set plain_packaging latest_version current = Inr updated"
    and A: "set again = updated"
  shows "update_specifier_set plain_packaging latest_version again = Inr updated"
proof -
  from ef have m1: "contains plain_packaging lv current = Some True"
    by (simp add: contains_plain specifier_set_contains_release [OF p pr])
  note first = update_member [OF p m1]
  have m2: "contains plain_packaging lv again =
      Some (\<forall>t \<in> set again. specifier_contains t L)"
    by (simp add: contains_plain specifier_set_contains_release [OF p pr])
  have "update_specifier_set plain_packaging latest_version again = Inr (set again)"
  proof (cases "find pinning current")
    case None
    with first U have upd: "updated = set current" by simp
    from None have "\<forall>t \<in> set current. \<not> pinning t" by (simp add: find_None_set)
    with A upd have np: "find pinning again = None" by (simp add: find_None_set)
    from m2 ef A upd have "contains plain_packaging lv again = Some True" by simp
    from update_member [OF p this] np show ?thesis by simp
  next
    case (Some s)
    let ?n = "length (split CHR ''.'' (version s))"
    let ?X = "join ''.'' (take ?n (split CHR ''.'' latest_version))"
    let ?s' = "\<lparr>operator = operator s, version = ?X\<rparr>"
    from find_Some_set [OF Some] have s: "s \<in> set current" "pinning s" by simp_all
    have n: "0 < ?n" by (rule length_split_pos)
    from first U Some have ok: "Specifier plain_packaging ?s' = Some ?s'"
      and upd: "updated = set current - {s} \<union> {?s'}"
      by (auto simp: Specifier_plain split: if_splits)
    have others: "\<not> rewritable t" if "t \<in> set current" "t \<noteq> s" for t
      using filter_at_most_one [OF H1 that(1) _ s(1) pinning_rewritable [OF s(2)]] that(2)
      by blast
    show ?thesis
    proof (rule update_again [OF p m2, of ?s'])
      show "\<forall>t \<in> set again. rewritable t \<longrightarrow> t = ?s'"
        using A upd others by auto
      show "Specifier plain_packaging ?s' = Some ?s'" by (rule ok)
      show "join ''.'' (take (length (split CHR ''.'' (version ?s')))
              (split CHR ''.'' latest_version)) = version ?s'"
        using truncate_again [OF n, of "CHR ''.''" latest_version] by simp
      show "?s' \<in> set again \<and> bounding ?s' \<and> bound_loop lv [?s'] = Inr (Some (?s', [?s']))"
        if neg: "\<not> (\<forall>t \<in> set again. specifier_contains t L)"
      proof (cases "operator s = Equal")
        case True
        from ef s(1) have "specifier_contains s L" by simp
        from equal_truncated_contains [OF pr True _ this] Hw s(1) True
        have "specifier_contains ?s' L" by simp
        with ef A upd have "\<forall>t \<in> set again. specifier_contains t L" by auto
        with neg show ?thesis by simp
      next
        case False
        with s(2) have c: "operator s = Compatible" by (simp add: pinning_def)
        with compatible_again [OF p pr n] A upd show ?thesis by (simp add: bounding_def)
      qed
    qed
  qed
  with A show ?thesis by simp
qed

lemma update_again_replaced:
  assumes p: "SemanticVersion latest_version = Inr lv"
    and m: "contains lib lv again = Some member"
    and upd: "set again = set current - {s} \<union> set new"
    and others: "\<forall>t \<in> set current. t \<noteq> s \<longrightarrow> \<not> rewritable t"
    and r: "r \<in> set new" "\<forall>t \<in> set new. rewritable t \<longrightarrow> t = r"
    and ok: "Specifier lib r = Some r"
    and pin: "pinning r \<Longrightarrow>
        join ''.'' (take (length (split CHR ''.'' (version r))) (split CHR ''.'' latest_version))
          = version r"
    and bnd: "bounding r" "bound_loop lv [r] = Inr (Some (r, [r]))"
  shows "update_specifier_set lib latest_version again = Inr (set again)"
proof (rule update_again [OF p m, of r])
  show "\<forall>t \<in> set again. rewritable t \<longrightarrow> t = r"
    using upd others r(2) by auto
  show "Specifier lib r = Some r" by (rule ok)
  show "join ''.'' (take (length (split CHR ''.'' (version r)))
          (split CHR ''.'' latest_version)) = version r" if "pinning r"
    using pin that .
  show "r \<in> set again \<and> bounding r \<and> bound_loop lv [r] = Inr (Some (r, [r]))"
    using upd r(1) bnd by simp
qed

lemma update_twice_not_member:
  assumes H1: "length (filter rewritable current) \<le> 1"
    and p: "SemanticVersion latest_version = Inr lv"
    and pr: "parse_release latest_version = Some L"
    and nm: "\<not> (\<forall>s \<in> set current. specifier_contains s L)"
    and U: "update_specifier_set plain_packaging latest_version current = Inr updated"
    and A: "set again = updated"
  shows "update_specifier_set plain_packaging latest_version again = Inr updated"
proof -
  have raw: "raw lv = latest_version" by (rule SemanticVersion_raw [OF p])
  note nn = SemanticVersion_nonneg [OF p]
  from nm have m1: "contains plain_packaging lv current = Some False"
    by (simp add: contains_plain specifier_set_contains_release [OF p pr])
  note first = update_not_member [OF p m1]
  have m2: "contains plain_packaging lv again =
      Some (\<forall>t \<in> set again. specifier_contains t L)"
    by (simp add: contains_plain specifier_set_contains_release [OF p pr])
  from first U obtain s where Some: "find bounding current = Some s"
    by (cases "find bounding current") auto
  from find_Some_set [OF Some] have s: "s \<in> set current" "bounding s" by simp_all
  from first U Some obtain q new where loop: "bound_loop lv [s] = Inr (Some (q, new))"
    and built: "those (map (Specifier plain_packaging) new) = Some new"
    and upd: "updated = set current - {s} \<union> set new"
    by (cases "bound_loop lv [s]")
      (auto simp del: bound_loop.simps simp: those_plain split: option.splits)
  from built have valid: "\<And>t. t \<in> set new \<Longrightarrow> Specifier plain_packaging t = Some t"
    by (simp add: those_plain Specifier_plain list_all_iff)
  have others: "\<forall>t \<in> set current. t \<noteq> s \<longrightarrow> \<not> rewritable t"
    using filter_at_most_one [OF H1 _ _ s(1) bounding_rewritable [OF s(2)]] by blast
  let ?n = "length (split CHR ''.'' (version s))"
  let ?X = "join ''.'' (take ?n (split CHR ''.'' latest_version))"
  have n: "0 < ?n" by (rule length_split_pos)
  from A upd have upd': "set again = set current - {s} \<union> set new" by simp
  note again = update_again_replaced [OF p m2 upd' others]
  have "update_specifier_set plain_packaging latest_version again = Inr (set again)"
  proof (cases "operator s = LessEqual")
    case True
    let ?r = "\<lparr>operator = LessEqual, version = ?X\<rparr>"
    from loop True raw have new: "new = [?r]" by auto
    show ?thesis
    proof (rule again [of ?r])
      show "?r \<in> set new" "\<forall>t \<in> set new. rewritable t \<longrightarrow> t = ?r" using new by simp_all
      then show "Specifier plain_packaging ?r = Some ?r" using valid by blast
      show "join ''.'' (take (length (split CHR ''.'' (version ?r)))
          (split CHR ''.'' latest_version)) = version ?r" if "pinning ?r"
        using that by (simp add: pinning_def)
      show "bounding ?r" by (simp add: bounding_def)
      show "bound_loop lv [?r] = Inr (Some (?r, [?r]))"
        by (rule less_equal_again [OF p n])
    qed
  next
    case nle: False
    show ?thesis
    proof (cases "operator s = Less")
      case True
      from less_bound [OF nn True loop] obtain Y
        where new: "new = [\<lparr>operator = Less, version = Y\<rparr>]"
          and b: "bound_loop lv [\<lparr>operator = Less, version = Y\<rparr>] =
            Inr (Some (\<lparr>operator = Less, version = Y\<rparr>, [\<lparr>operator = Less, version = Y\<rparr>]))"
        by blast
      let ?r = "\<lparr>operator = Less, version = Y\<rparr>"
      show ?thesis
      proof (rule again [of ?r])
        show "?r \<in> set new" "\<forall>t \<in> set new. rewritable t \<longrightarrow> t = ?r" using new by simp_all
        then show "Specifier plain_packaging ?r = Some ?r" using valid by blast
        show "join ''.'' (take (length (split CHR ''.'' (version ?r)))
            (split CHR ''.'' latest_version)) = version ?r" if "pinning ?r"
          using that by (simp add: pinning_def)
        show "bounding ?r" by (simp add: bounding_def)
        show "bound_loop lv [?r] = Inr (Some (?r, [?r]))" by (rule b)
      qed
    next
      case False
      with nle s(2) have c: "operator s = Compatible" by (simp add: bounding_def)
      from loop c obtain cv where cv: "SemanticVersion (version s) = Inr cv"
        by (cases "SemanticVersion (version s)") auto
      show ?thesis
      proof (cases "major cv < major lv")
        case True
        let ?g = "\<lparr>operator = GreaterEqual, version = str_semver cv\<rparr>"
        let ?r = "\<lparr>operator = Less, version = str_nat (nat (major lv + 1))\<rparr>"
        from nn have mj: "0 \<le> major lv" by simp
        from mj have "str_int (major lv + 1) = str_nat (nat (major lv + 1))"
          by (simp add: str_int_nonneg)
        with loop c cv True next_version_major [OF mj] have new: "new = [?g, ?r]"
          by auto
        show ?thesis
        proof (rule again [of ?r])
          show "?r \<in> set new" using new by simp
          then show "Specifier plain_packaging ?r = Some ?r" using valid by blast
          show "\<forall>t \<in> set new. rewritable t \<longrightarrow> t = ?r"
            using new by (simp add: rewritable_def)
          show "join ''.'' (take (length (split CHR ''.'' (version ?r)))
              (split CHR ''.'' latest_version)) = version ?r" if "pinning ?r"
            using that by (simp add: pinning_def)
          show "bounding ?r" by (simp add: bounding_def)
          show "bound_loop lv [?r] = Inr (Some (?r, [?r]))"
            using mj by (intro less_bound_major) (simp_all add: split_str_nat)
        qed
      next
        case False
        let ?r = "\<lparr>operator = Compatible, version = ?X\<rparr>"
        from loop c cv False raw have new: "new = [?r]" by auto
        show ?thesis
        proof (rule again [of ?r])
          show "?r \<in> set new" "\<forall>t \<in> set new. rewritable t \<longrightarrow> t = ?r"
            using new by simp_all
          then show "Specifier plain_packaging ?r = Some ?r" using valid by blast
          show "join ''.'' (take (length (split CHR ''.'' (version ?r)))
              (split CHR ''.'' latest_version)) = version ?r"
            using truncate_again [OF n, of "CHR ''.''" latest_version] by simp
          show "bounding ?r" by (simp add: bounding_def)
          show "bound_loop lv [?r] = Inr (Some (?r, [?r]))"
            by (rule compatible_again [OF p pr n])
        qed
      qed
    qed
  qed
  with A show ?thesis by simp
qed

text \<open>
  C6 (as amended). Here the latest version and the versions of the specifiers are
  plain dotted numbers, and the library is the one modelled on such versions.
  Applying \<open>update_specifier_set\<close> again with the same latest version, to the result
  of a first application in whatever order that result is iterated, returns the
  same set, provided that at most one specifier of the current set has one of the
  operators \<open>==\<close>, \<open>~=\<close>, \<open><=\<close>, \<open><\<close>, and that no \<open>==\<close> specifier ends in
  \<open>.*\<close>.
\<close>

theorem update_twice:
  "parse_release latest_version \<noteq> None
   \<and> list_all valid_specifier current
   \<and> length (filter rewritable current) \<le> 1
   \<and> (\<forall>s \<in> set current. operator s = Equal \<longrightarrow> wildcard (version s) = None)
   \<and> update_specifier_set plain_packaging latest_version current = Inr updated
   \<and> set again = updated
   \<longrightarrow> update_specifier_set plain_packaging latest_version again = Inr updated"
proof (intro impI, elim conjE)
  assume Hp: "parse_release latest_version \<noteq> None"
    and H1: "length (filter rewritable current) \<le> 1"
    and Hw: "\<forall>s \<in> set current. operator s = Equal \<longrightarrow> wildcard (version s) = None"
    and U: "update_specifier_set plain_packaging latest_version current = Inr updated"
    and A: "set again = updated"
  from U obtain lv where p: "SemanticVersion latest_version = Inr lv"
    by (cases "SemanticVersion latest_version") (auto simp: update_specifier_set_def)
  from Hp obtain L where pr: "parse_release latest_version = Some L" by blast
  show "update_specifier_set plain_packaging latest_version again = Inr updated"
  proof (cases "\<forall>s \<in> set current. specifier_contains s L")
    case True
    from update_twice_member [OF H1 Hw p pr True U A] show ?thesis .
  next
    case False
    from update_twice_not_member [OF H1 p pr False U A] show ?thesis .
  qed
qed

lemma update_two_compatible:
  "update_specifier_set plain_packaging ''2.3.7''
     [\<lparr>operator = Compatible, version = ''2.0''\<rparr>, \<lparr>operator = Compatible, version = ''2.1''\<rparr>]
   = Inr {\<lparr>operator = Compatible, version = ''2.1''\<rparr>,
          \<lparr>operator = Compatible, version = ''2.3''\<rparr>}"
  "update_specifier_set plain_packaging ''2.3.7''
     [\<lparr>operator = Compatible, version = ''2.1''\<rparr>, \<lparr>operator = Compatible, version = ''2.3''\<rparr>]
   = Inr {\<lparr>operator = Compatible, version = ''2.3''\<rparr>}"
  by code_simp+

lemma update_wildcard:
  "update_specifier_set plain_packaging ''3.5.7'' [\<lparr>operator = Equal, version = ''3.*''\<rparr>]
   = Inr {\<lparr>operator = Equal, version = ''3.5''\<rparr>}"
  "update_specifier_set plain_packaging ''3.5.7'' [\<lparr>operator = Equal, version = ''3.5''\<rparr>]
   = Inl UnableToResolve"
  by code_simp+

text \<open>
  C6 (as stated) fails in two ways. With two \<open>~=\<close> specifiers the first application
  re-pins the one it meets first; a second application that meets the other one
  first re-pins that one too, and the set shrinks. With \<open>==3.*\<close> and latest 3.5.7
  the first application gives \<open>==3.5\<close>, which does not admit 3.5.7, and the second
  application raises \<open>UnableToResolve\<close>.
\<close>

theorem update_twice_counterexample:
  "update_specifier_set plain_packaging ''2.3.7''
     [\<lparr>operator = Compatible, version = ''2.0''\<rparr>, \<lparr>operator = Compatible, version = ''2.1''\<rparr>]
   = Inr (set [\<lparr>operator = Compatible, version = ''2.1''\<rparr>,
               \<lparr>operator = Compatible, version = ''2.3''\<rparr>])
   \<and> update_specifier_set plain_packaging ''2.3.7''
     [\<lparr>operator = Compatible, version = ''2.1''\<rparr>, \<lparr>operator = Compatible, version = ''2.3''\<rparr>]
   \<noteq> Inr (set [\<lparr>operator = Compatible, version = ''2.1''\<rparr>,
               \<lparr>operator = Compatible, version = ''2.3''\<rparr>])
   \<and> update_specifier_set plain_packaging ''3.5.7'' [\<lparr>operator = Equal, version = ''3.*''\<rparr>]
   = Inr (set [\<lparr>operator = Equal, version = ''3.5''\<rparr>])
   \<and> update_specifier_set plain_packaging ''3.5.7'' [\<lparr>operator = Equal, version = ''3.5''\<rparr>]
   = Inl UnableToResolve"
  unfolding update_two_compatible update_wildcard
  by (simp add: doubleton_eq_iff)

lemma update_2_3_7_twice:
  "update_specifier_set plain_packaging ''2.3.7''
     [\<lparr>operator = GreaterEqual, version = ''1.0''\<rparr>, \<lparr>operator = Compatible, version = ''2.0''\<rparr>]
   = Inr {\<lparr>operator = GreaterEqual, version = ''1.0''\<rparr>,
          \<lparr>operator = Compatible, version = ''2.3''\<rparr>}"
  by code_simp

theorem update_twice_witness:
  "parse_release ''2.3.7'' \<noteq> None
   \<and> list_all valid_specifier
       [\<lparr>operator = GreaterEqual, version = ''1.0''\<rparr>,
        \<lparr>operator = Compatible, version = ''2.0''\<rparr>]
   \<and> length (filter rewritable
       [\<lparr>operator = GreaterEqual, version = ''1.0''\<rparr>,
        \<lparr>operator = Compatible, version = ''2.0''\<rparr>]) \<le> 1
   \<and> update_specifier_set plain_packaging ''2.3.7''
       [\<lparr>operator = GreaterEqual, version = ''1.0''\<rparr>,
        \<lparr>operator = Compatible, version = ''2.0''\<rparr>]
     = Inr {\<lparr>operator = GreaterEqual, version = ''1.0''\<rparr>,
            \<lparr>operator = Compatible, version = ''2.3''\<rparr>}
   \<and> update_specifier_set plain_packaging ''2.3.7''
       [\<lparr>operator = Compatible, version = ''2.3''\<rparr>,
        \<lparr>operator = GreaterEqual, version = ''1.0''\<rparr>]
     = Inr {\<lparr>operator = GreaterEqual, version = ''1.0''\<rparr>,
            \<lparr>operator = Compatible, version = ''2.3''\<rparr>}"
proof -
  let ?current = "[\<lparr>operator = GreaterEqual, version = ''1.0''\<rparr>,
                   \<lparr>operator = Compatible, version = ''2.0''\<rparr>]"
  let ?again = "[\<lparr>operator = Compatible, version = ''2.3''\<rparr>,
                 \<lparr>operator = GreaterEqual, version = ''1.0''\<rparr>]"
  let ?updated = "{\<lparr>operator = GreaterEqual, version = ''1.0''\<rparr>,
                   \<lparr>operator = Compatible, version = ''2.3''\<rparr>}"
  have plain: "parse_release ''2.3.7'' \<noteq> None"
    by code_simp
  have valid: "list_all valid_specifier ?current"
    by code_simp
  have one: "length (filter rewritable ?current) \<le> 1"
    by (simp add: rewritable_def)
  have no_wildcard: "\<forall>s \<in> set ?current. operator s = Equal \<longrightarrow> wildcard (version s) = None"
    by simp
  have same: "set ?again = ?updated"
    by auto
  from update_twice [of "''2.3.7''" ?current ?updated ?again]
    plain valid one no_wildcard update_2_3_7_twice same
  have "update_specifier_set plain_packaging ''2.3.7'' ?again = Inr ?updated"
    by blast
  with plain valid one update_2_3_7_twice show ?thesis by simp
qed

end
